theory Spec2Isabelle
  imports Main "HOL-Library.AList" "HOL-Library.Char_ord" "HOL-Library.List_Lexorder"
begin

section \<open>The settings model (pkg/github)\<close>

text \<open>
  The structs of the package become records with the field names of the source.
  Several structs share a field name (\<open>Name\<close>, \<open>Description\<close>,
  \<open>RequiredApprovingReviewCount\<close>); the record name qualifies it where needed.

  A Go slice on which \<open>reflect.DeepEqual\<close> is called is a \<open>list option\<close>:
  \<open>None\<close> is the nil slice, \<open>Some []\<close> the empty non-nil slice. DeepEqual tells
  the two apart, and HOL equality on \<open>list option\<close> does the same. The slices
  \<open>Labels\<close>, \<open>Branches\<close> and \<open>Webhooks\<close> are only ever ranged over, where
  nil and empty behave alike, so they are plain lists.

  \<open>int\<close> and \<open>int64\<close> values are only stored, copied and compared (with each
  other and with 0), never computed with, so they are modelled as \<open>int\<close>.
\<close>

type_synonym 'a slice = "'a list option"

record repository =
  Name :: string
  Owner :: string
  Description :: string
  Homepage :: string
  DefaultBranch :: string
  Private :: bool
  HasIssues :: bool
  HasProjects :: bool
  HasPages :: bool
  HasWiki :: bool
  HasDownloads :: bool
  IsTemplate :: bool
  Archived :: bool
  AllowSquashMerge :: bool
  AllowMergeCommit :: bool
  AllowRebaseMerge :: bool

record label =
  Name :: string
  Description :: string
  Color :: string

record requiredApprovingReviewCount =
  RequiredApprovingReviewCount :: int
  DismissStaleReviews :: bool
  RequireCodeOwnerReviews :: bool

record requiredStatusChecks =
  Strict :: bool
  Contexts :: "string slice"

record protection =
  Enabled :: bool
  EnforceAdmins :: bool
  RequiredApprovingReviewCount :: requiredApprovingReviewCount
  RequiredStatusChecks :: requiredStatusChecks

record branch =
  Name :: string
  Protection :: protection

record webhook =
  ID :: int
  URL :: string
  ContentType :: string
  Secret :: string
  Events :: "string slice"

record Settings =
  Repository :: repository
  Labels :: "label list"
  Branches :: "branch list"
  Webhooks :: "webhook list"
  Topics :: "string slice"

text \<open>
  Errors are values. \<open>errors.Wrap err msg\<close> is the constructor \<open>Wrap\<close>; an error
  that comes from a collaborator (the file system, the YAML decoder, the remote API,
  the git library) is an \<open>Error\<close>.
\<close>

datatype error = Error string | Wrap error string

section \<open>Loading the desired settings: GetSettingsFromFile\<close>

text \<open>
  The loop \<open>for i, branch := range settings.Branches\<close> of GetSettingsFromFile, from
  index \<open>i\<close> on. The loop variable \<open>branch\<close> is a copy of element \<open>i\<close> taken when
  the iteration starts; the body writes through \<open>settings.Branches[i]\<close>.
\<close>

function normalize_branches :: "nat \<Rightarrow> branch list \<Rightarrow> branch list" where
  "normalize_branches i branches =
     (if i < length branches then
        let branch = branches ! i;
            branches1 = branches[i := (branches ! i)
                \<lparr>Protection := (Protection (branches ! i))\<lparr>Enabled := True\<rparr>\<rparr>];
            branches2 =
              (if requiredApprovingReviewCount.RequiredApprovingReviewCount
                    (protection.RequiredApprovingReviewCount (Protection branch)) = 0
               then
                 let branches1' = branches1[i := (branches1 ! i)
                       \<lparr>Protection := (Protection (branches1 ! i))
                          \<lparr>protection.RequiredApprovingReviewCount :=
                             (protection.RequiredApprovingReviewCount (Protection (branches1 ! i)))
                               \<lparr>DismissStaleReviews := False\<rparr>\<rparr>\<rparr>]
                 in branches1'[i := (branches1' ! i)
                       \<lparr>Protection := (Protection (branches1' ! i))
                          \<lparr>protection.RequiredApprovingReviewCount :=
                             (protection.RequiredApprovingReviewCount (Protection (branches1' ! i)))
                               \<lparr>RequireCodeOwnerReviews := False\<rparr>\<rparr>\<rparr>]
               else branches1)
        in normalize_branches (Suc i) branches2
      else branches)"
  by pat_completeness auto
termination
  by (relation "measure (\<lambda>(i, branches). length branches - i)") (simp_all add: Let_def)

declare normalize_branches.simps [simp del]

text \<open>
  GetSettingsFromFile. Reading the file and decoding YAML belong to collaborators
  (\<open>ioutil.ReadFile\<close>, \<open>yaml.Unmarshal\<close>); they are the parameters \<open>ReadFile\<close> and
  \<open>Unmarshal\<close>, each returning an error or its result.
\<close>

definition GetSettingsFromFile ::
  "(string \<Rightarrow> error + string) \<Rightarrow> (string \<Rightarrow> error + Settings) \<Rightarrow> string \<Rightarrow> error + Settings"
where
  "GetSettingsFromFile ReadFile Unmarshal file =
     (case ReadFile file of
        Inl err \<Rightarrow> Inl (Wrap err ''Error while reading settings file'')
      | Inr content \<Rightarrow>
          (case Unmarshal content of
             Inl err \<Rightarrow> Inl (Wrap err ''Error while unmarshal settings'')
           | Inr settings \<Rightarrow>
               Inr (settings\<lparr>Branches := normalize_branches 0 (Branches settings)\<rparr>)))"

section \<open>The collaborators: go-github, go-git and the Go runtime\<close>

text \<open>
  The types of the go-github library that the package reads and sends are not part of
  this repository. They are modelled from what the source does with them: the records
  below hold the fields the package touches. A pointer field is an \<open>option\<close>
  (\<open>None\<close> is nil), and the library's getters (\<open>GetName\<close>, \<open>GetPrivate\<close>,
  \<open>GetID\<close>, ...) return the zero value on nil. A \<open>map[string]interface{}\<close> is an
  association list of \<open>iface\<close> values.
\<close>

datatype iface = IString string | IOther

record github_User =
  User_Login :: "string option"

record github_Repository =
  Repo_Name :: "string option"
  Repo_Owner :: "github_User option"
  Repo_Description :: "string option"
  Repo_Homepage :: "string option"
  Repo_DefaultBranch :: "string option"
  Repo_Private :: "bool option"
  Repo_HasIssues :: "bool option"
  Repo_HasProjects :: "bool option"
  Repo_HasPages :: "bool option"
  Repo_HasWiki :: "bool option"
  Repo_HasDownloads :: "bool option"
  Repo_IsTemplate :: "bool option"
  Repo_Archived :: "bool option"
  Repo_AllowSquashMerge :: "bool option"
  Repo_AllowMergeCommit :: "bool option"
  Repo_AllowRebaseMerge :: "bool option"
  Repo_Topics :: "string slice"

record github_Label =
  Label_Name :: "string option"
  Label_Color :: "string option"
  Label_Description :: "string option"

record github_Branch =
  Branch_Name :: "string option"
  Branch_Protected :: "bool option"

record github_RequiredStatusChecks =
  RSC_Strict :: bool
  RSC_Contexts :: "string slice"

record github_PullRequestReviewsEnforcement =
  PRR_DismissStaleReviews :: bool
  PRR_RequireCodeOwnerReviews :: bool
  PRR_RequiredApprovingReviewCount :: int

record github_AdminEnforcement =
  Admin_Enabled :: bool

record github_Protection =
  Prot_RequiredStatusChecks :: "github_RequiredStatusChecks option"
  Prot_RequiredPullRequestReviews :: "github_PullRequestReviewsEnforcement option"
  Prot_EnforceAdmins :: "github_AdminEnforcement option"

record github_ProtectionRequest =
  Req_RequiredStatusChecks :: "github_RequiredStatusChecks option"
  Req_RequiredPullRequestReviews :: "github_PullRequestReviewsEnforcement option"
  Req_EnforceAdmins :: bool

record github_Hook =
  Hook_ID :: "int option"
  Hook_Events :: "string slice"
  Hook_Active :: "bool option"
  Hook_Config :: "(string \<times> iface) list"

definition GetString :: "string option \<Rightarrow> string" where
  "GetString p = (case p of None \<Rightarrow> [] | Some s \<Rightarrow> s)"

definition GetBool :: "bool option \<Rightarrow> bool" where
  "GetBool p = (case p of None \<Rightarrow> False | Some b \<Rightarrow> b)"

definition GetInt64 :: "int option \<Rightarrow> int" where
  "GetInt64 p = (case p of None \<Rightarrow> 0 | Some i \<Rightarrow> i)"

definition GetLogin :: "github_User option \<Rightarrow> string" where
  "GetLogin u = (case u of None \<Rightarrow> [] | Some user \<Rightarrow> GetString (User_Login user))"

text \<open>
  Every call by which the package changes something outside itself: the ten write
  methods of the API client that it uses, and the four go-git steps of createBranch
  (clone into memory, read HEAD, set a reference, push). The owner and the repository
  name come first, as in the source.
\<close>

datatype call =
    Repositories_Edit string string github_Repository
  | Issues_DeleteLabel string string string
  | Issues_CreateLabel string string github_Label
  | Issues_EditLabel string string string github_Label
  | Repositories_RemoveBranchProtection string string string
  | Repositories_UpdateBranchProtection string string string github_ProtectionRequest
  | Repositories_CreateHook string string github_Hook
  | Repositories_DeleteHook string string int
  | Repositories_EditHook string string int github_Hook
  | Repositories_ReplaceAllTopics string string "string slice"
  | git_Clone string
  | git_Head
  | git_SetReference string string
  | git_Push

text \<open>
  The client. \<open>'w\<close> is the state of everything outside the program: the hosted
  repository and the in-memory clone. The five read methods observe that state; \<open>exec\<close>
  performs a call on it and returns the call's error, if any; \<open>repo_Head\<close> is the
  reference that \<open>repo.Head()\<close> returns. \<open>token\<close> is the field of the source.

  Go leaves the order in which \<open>range\<close> enumerates a map unspecified. \<open>range_rank\<close>
  fixes it for one run: a map is enumerated by ascending rank of its keys, and the first
  argument names the map that is ranged over, so that the three maps of the package are
  enumerated independently. Every enumeration order of a map is the order of some rank.
\<close>

record 'w client =
  token :: string
  Repositories_Get :: "'w \<Rightarrow> string \<Rightarrow> string \<Rightarrow> error + github_Repository"
  Issues_ListLabels :: "'w \<Rightarrow> string \<Rightarrow> string \<Rightarrow> error + github_Label list"
  Repositories_ListBranches :: "'w \<Rightarrow> string \<Rightarrow> string \<Rightarrow> error + github_Branch list"
  Repositories_GetBranchProtection ::
    "'w \<Rightarrow> string \<Rightarrow> string \<Rightarrow> string \<Rightarrow> error + github_Protection"
  Repositories_ListHooks :: "'w \<Rightarrow> string \<Rightarrow> string \<Rightarrow> error + github_Hook list"
  repo_Head :: "'w \<Rightarrow> error + string"
  exec :: "call \<Rightarrow> 'w \<Rightarrow> error option \<times> 'w"
  range_rank :: "string \<Rightarrow> string \<Rightarrow> nat"

text \<open>
  The state threaded through a run: the outside world and the calls issued so far, in
  order.
\<close>

type_synonym 'w state = "'w \<times> call list"

definition invoke :: "'w client \<Rightarrow> call \<Rightarrow> 'w state \<Rightarrow> error option \<times> 'w state" where
  "invoke client c st =
     (case exec client c (fst st) of (err, w') \<Rightarrow> (err, (w', snd st @ [c])))"

text \<open>
  A loop that issues one call per element and returns the first error, wrapped:
  \<open>for ... { err := call; if err != nil { return errors.Wrap(err, msg) } }\<close>.
\<close>

fun call_each :: "'w client \<Rightarrow> string \<Rightarrow> call list \<Rightarrow> 'w state \<Rightarrow> error option \<times> 'w state" where
  "call_each client msg [] st = (None, st)"
| "call_each client msg (c # cs) st =
     (case invoke client c st of
        (Some err, st') \<Rightarrow> (Some (Wrap err msg), st')
      | (None, st') \<Rightarrow> call_each client msg cs st')"

text \<open>
  A Go map with string keys is an association list with at most one entry per key:
  \<open>m[k] = v\<close> is \<open>AList.update k v m\<close>, \<open>delete(m, k)\<close> is \<open>AList.delete k m\<close>,
  the lookup \<open>v, ok := m[k]\<close> is \<open>map_of m k\<close>, and \<open>range m\<close> is \<open>range_map\<close>.
\<close>

type_synonym 'v gomap = "(string \<times> 'v) list"

definition range_map :: "'w client \<Rightarrow> string \<Rightarrow> 'v gomap \<Rightarrow> (string \<times> 'v) list" where
  "range_map client site m = sort_key (\<lambda>kv. range_rank client site (fst kv)) m"

text \<open>
  A function of the package either returns or panics (a nil pointer dereference, a
  failed type assertion). A panic is not an error value: no caller wraps it.
\<close>

datatype 'a result = Ok 'a | Err error | Panic string

section \<open>Reading the remote state: GetSettingsFromGithub\<close>

text \<open>
  The loop over \<open>githubBranches\<close>; \<open>branchesSettings\<close> is the accumulator. For a
  protected branch the source dereferences \<open>GetEnforceAdmins()\<close> and
  \<open>RequiredStatusChecks\<close> without a nil check. For an unprotected branch it appends
  \<open>branch{Name: ...}\<close>, whose \<open>Protection\<close> is Go's zero value.
\<close>

fun read_branches ::
  "'w client \<Rightarrow> 'w \<Rightarrow> string \<Rightarrow> string \<Rightarrow> github_Branch list \<Rightarrow> branch list \<Rightarrow> branch list result"
where
  "read_branches client w owner name [] branchesSettings = Ok branchesSettings"
| "read_branches client w owner name (githubBranch # rest) branchesSettings =
     (if GetBool (Branch_Protected githubBranch) then
        (case Repositories_GetBranchProtection client w owner name
                (GetString (Branch_Name githubBranch)) of
           Inl err \<Rightarrow> Err (Wrap err ''Error while getting branch protection'')
         | Inr githubProtection \<Rightarrow>
             let requiredReview =
                   (case Prot_RequiredPullRequestReviews githubProtection of
                      None \<Rightarrow>
                        \<lparr>requiredApprovingReviewCount.RequiredApprovingReviewCount = 0,
                         DismissStaleReviews = False, RequireCodeOwnerReviews = False\<rparr>
                    | Some reviews \<Rightarrow>
                        \<lparr>requiredApprovingReviewCount.RequiredApprovingReviewCount =
                           PRR_RequiredApprovingReviewCount reviews,
                         DismissStaleReviews = PRR_DismissStaleReviews reviews,
                         RequireCodeOwnerReviews = PRR_RequireCodeOwnerReviews reviews\<rparr>)
             in (case Prot_EnforceAdmins githubProtection of
                   None \<Rightarrow> Panic ''invalid memory address or nil pointer dereference''
                 | Some admins \<Rightarrow>
                     (case Prot_RequiredStatusChecks githubProtection of
                        None \<Rightarrow> Panic ''invalid memory address or nil pointer dereference''
                      | Some checks \<Rightarrow>
                          read_branches client w owner name rest
                            (branchesSettings @
                             [\<lparr>branch.Name = GetString (Branch_Name githubBranch),
                               Protection =
                                 \<lparr>Enabled = True,
                                  EnforceAdmins = Admin_Enabled admins,
                                  protection.RequiredApprovingReviewCount = requiredReview,
                                  RequiredStatusChecks =
                                    \<lparr>Strict = RSC_Strict checks,
                                     Contexts = RSC_Contexts checks\<rparr>\<rparr>\<rparr>]))))
      else
        read_branches client w owner name rest
          (branchesSettings @
           [\<lparr>branch.Name = GetString (Branch_Name githubBranch),
             Protection =
               \<lparr>Enabled = False, EnforceAdmins = False,
                protection.RequiredApprovingReviewCount =
                  \<lparr>requiredApprovingReviewCount.RequiredApprovingReviewCount = 0,
                   DismissStaleReviews = False, RequireCodeOwnerReviews = False\<rparr>,
                RequiredStatusChecks = \<lparr>Strict = False, Contexts = None\<rparr>\<rparr>\<rparr>]))"

text \<open>
  The type assertion \<open>hook.Config[key].(string)\<close>: it fails, and the program panics,
  when the key is missing or holds a value that is not a string.
\<close>

definition config_string :: "(string \<times> iface) list \<Rightarrow> string \<Rightarrow> string option" where
  "config_string config key =
     (case map_of config key of
        Some (IString s) \<Rightarrow> Some s
      | _ \<Rightarrow> None)"

text \<open>The loop over \<open>hooks\<close>; \<open>webhooksSettings\<close> is the accumulator.\<close>

fun read_hooks :: "github_Hook list \<Rightarrow> webhook list \<Rightarrow> webhook list result" where
  "read_hooks [] webhooksSettings = Ok webhooksSettings"
| "read_hooks (hook # rest) webhooksSettings =
     (case config_string (Hook_Config hook) ''url'' of
        None \<Rightarrow> Panic ''interface conversion: interface {} is not string''
      | Some url \<Rightarrow>
          (case config_string (Hook_Config hook) ''content_type'' of
             None \<Rightarrow> Panic ''interface conversion: interface {} is not string''
           | Some content_type \<Rightarrow>
               (case config_string (Hook_Config hook) ''secret'' of
                  None \<Rightarrow> Panic ''interface conversion: interface {} is not string''
                | Some secret \<Rightarrow>
                    read_hooks rest
                      (webhooksSettings @
                       [\<lparr>ID = GetInt64 (Hook_ID hook), URL = url,
                         ContentType = content_type, Secret = secret,
                         Events = Hook_Events hook\<rparr>]))))"

text \<open>
  GetSettingsFromGithub. The composite literal that builds \<open>Repository\<close> names every
  field of the struct but \<open>HasPages\<close>, which therefore keeps Go's zero value
  \<open>false\<close>.
\<close>

definition GetSettingsFromGithub ::
  "'w client \<Rightarrow> 'w \<Rightarrow> string \<Rightarrow> string \<Rightarrow> Settings result"
where
  "GetSettingsFromGithub client w owner name =
     (case Repositories_Get client w owner name of
        Inl err \<Rightarrow> Err (Wrap err ''Error while getting repository from github'')
      | Inr githubRepo \<Rightarrow>
     (case Issues_ListLabels client w owner name of
        Inl err \<Rightarrow> Err (Wrap err ''Error while getting labels from github'')
      | Inr githubLabels \<Rightarrow>
     let labelSettings =
           map (\<lambda>githubLabel.
                  \<lparr>label.Name = GetString (Label_Name githubLabel),
                   Description = GetString (Label_Description githubLabel),
                   Color = GetString (Label_Color githubLabel)\<rparr>) githubLabels
     in
     (case Repositories_ListBranches client w owner name of
        Inl err \<Rightarrow> Err (Wrap err ''Error while listing branches'')
      | Inr githubBranches \<Rightarrow>
     (case read_branches client w owner name githubBranches [] of
        Panic p \<Rightarrow> Panic p
      | Err err \<Rightarrow> Err err
      | Ok branchesSettings \<Rightarrow>
     (case Repositories_ListHooks client w owner name of
        Inl err \<Rightarrow> Err (Wrap err ''Error getting webhooks'')
      | Inr hooks \<Rightarrow>
     (case read_hooks hooks [] of
        Panic p \<Rightarrow> Panic p
      | Err err \<Rightarrow> Err err
      | Ok webhooksSettings \<Rightarrow>
          Ok \<lparr>Repository =
                \<lparr>repository.Name = GetString (Repo_Name githubRepo),
                 Owner = GetLogin (Repo_Owner githubRepo),
                 Description = GetString (Repo_Description githubRepo),
                 Homepage = GetString (Repo_Homepage githubRepo),
                 DefaultBranch = GetString (Repo_DefaultBranch githubRepo),
                 Private = GetBool (Repo_Private githubRepo),
                 HasIssues = GetBool (Repo_HasIssues githubRepo),
                 HasProjects = GetBool (Repo_HasProjects githubRepo),
                 HasPages = False,
                 HasWiki = GetBool (Repo_HasWiki githubRepo),
                 HasDownloads = GetBool (Repo_HasDownloads githubRepo),
                 IsTemplate = GetBool (Repo_IsTemplate githubRepo),
                 Archived = GetBool (Repo_Archived githubRepo),
                 AllowSquashMerge = GetBool (Repo_AllowSquashMerge githubRepo),
                 AllowMergeCommit = GetBool (Repo_AllowMergeCommit githubRepo),
                 AllowRebaseMerge = GetBool (Repo_AllowRebaseMerge githubRepo)\<rparr>,
               Labels = labelSettings,
               Branches = branchesSettings,
               Webhooks = webhooksSettings,
               Topics = Repo_Topics githubRepo\<rparr>))))))"

section \<open>The reconcilers (update.go)\<close>

subsection \<open>Topics\<close>

text \<open>
  \<open>sort.Strings\<close> sorts a slice in place by Go's string order, which compares bytes
  lexicographically; that is the order of \<open>string\<close> here. Sorting the nil slice leaves
  it nil.
\<close>

definition sort_Strings :: "string slice \<Rightarrow> string slice" where
  "sort_Strings a = map_option sort a"

text \<open>
  updateTopicsSettings. \<open>reflect.DeepEqual\<close> on two slices of strings is equality of
  \<open>string slice\<close>: a nil slice and an empty slice are not deeply equal.
\<close>

definition updateTopicsSettings ::
  "'w client \<Rightarrow> string \<Rightarrow> string \<Rightarrow> string slice \<Rightarrow> string slice \<Rightarrow> 'w state \<Rightarrow>
   error option \<times> 'w state"
where
  "updateTopicsSettings client owner name githubTopics topics st =
     (let githubTopics = sort_Strings githubTopics;
          topics = sort_Strings topics
      in if githubTopics = topics then (None, st)
         else
           (case invoke client (Repositories_ReplaceAllTopics owner name topics) st of
              (Some err, st') \<Rightarrow> (Some (Wrap err ''Error updating repository topics\<newline>''), st')
            | (None, st') \<Rightarrow> (None, st')))"

subsection \<open>Repository attributes\<close>

text \<open>The \<open>github.Repository\<close> literal that updateRepoSettings sends.\<close>

definition github_Repository_of :: "repository \<Rightarrow> github_Repository" where
  "github_Repository_of repo =
     \<lparr>Repo_Name = None,
      Repo_Owner = None,
      Repo_Description = Some (repository.Description repo),
      Repo_Homepage = Some (Homepage repo),
      Repo_DefaultBranch = Some (DefaultBranch repo),
      Repo_Private = Some (Private repo),
      Repo_HasIssues = Some (HasIssues repo),
      Repo_HasProjects = Some (HasProjects repo),
      Repo_HasPages = Some (HasPages repo),
      Repo_HasWiki = Some (HasWiki repo),
      Repo_HasDownloads = Some (HasDownloads repo),
      Repo_IsTemplate = Some (IsTemplate repo),
      Repo_Archived = Some (Archived repo),
      Repo_AllowSquashMerge = Some (AllowSquashMerge repo),
      Repo_AllowMergeCommit = Some (AllowMergeCommit repo),
      Repo_AllowRebaseMerge = Some (AllowRebaseMerge repo),
      Repo_Topics = None\<rparr>"

text \<open>updateRepoSettings; \<open>reflect.DeepEqual\<close> on two \<open>repository\<close> values is equality.\<close>

definition updateRepoSettings ::
  "'w client \<Rightarrow> string \<Rightarrow> string \<Rightarrow> repository \<Rightarrow> repository \<Rightarrow> 'w state \<Rightarrow>
   error option \<times> 'w state"
where
  "updateRepoSettings client owner name githubRepo repo st =
     (if githubRepo = repo then (None, st)
      else
        (case invoke client (Repositories_Edit owner name (github_Repository_of repo)) st of
           (Some err, st') \<Rightarrow> (Some (Wrap err ''Error updating settings\<newline>''), st')
         | (None, st') \<Rightarrow> (None, st')))"

subsection \<open>Labels\<close>

text \<open>The first loop: every remote label is stored under its name.\<close>

definition label_map :: "label list \<Rightarrow> label gomap" where
  "label_map githubLabels =
     fold (\<lambda>githubLabel m. AList.update (label.Name githubLabel) githubLabel m) githubLabels []"

text \<open>
  The second loop, over \<open>labelsSettings\<close>, with the three variables it updates:
  \<open>labelsToCreate\<close>, \<open>labelsToUpdate\<close> and \<open>deleteLabelMap\<close>. \<open>!=\<close> on two
  \<open>label\<close> structs compares the three string fields.
\<close>

fun labels_loop ::
  "label list \<Rightarrow> label list \<times> label list \<times> label gomap \<Rightarrow> label list \<times> label list \<times> label gomap"
where
  "labels_loop [] vars = vars"
| "labels_loop (labelSetting # rest) (labelsToCreate, labelsToUpdate, deleteLabelMap) =
     (case map_of deleteLabelMap (label.Name labelSetting) of
        None \<Rightarrow>
          labels_loop rest (labelsToCreate @ [labelSetting], labelsToUpdate, deleteLabelMap)
      | Some githubLabel \<Rightarrow>
          labels_loop rest
            (labelsToCreate,
             (if labelSetting \<noteq> githubLabel then labelsToUpdate @ [labelSetting]
              else labelsToUpdate),
             AList.delete (label.Name labelSetting) deleteLabelMap))"

definition github_Label_of :: "label \<Rightarrow> github_Label" where
  "github_Label_of l =
     \<lparr>Label_Name = Some (label.Name l),
      Label_Color = Some (Color l),
      Label_Description = Some (label.Description l)\<rparr>"

definition updateLabels ::
  "'w client \<Rightarrow> string \<Rightarrow> string \<Rightarrow> label list \<Rightarrow> label list \<Rightarrow> 'w state \<Rightarrow>
   error option \<times> 'w state"
where
  "updateLabels client owner name githubLabels labelsSettings st =
     (case labels_loop labelsSettings ([], [], label_map githubLabels) of
        (labelsToCreate, labelsToUpdate, deleteLabelMap) \<Rightarrow>
     (case call_each client ''Error deleting a label\<newline>''
             (map (\<lambda>(labelName, _). Issues_DeleteLabel owner name labelName)
                (range_map client ''deleteLabelMap'' deleteLabelMap)) st of
        (Some err, st1) \<Rightarrow> (Some err, st1)
      | (None, st1) \<Rightarrow>
     (case call_each client ''Error creating a label\<newline>''
             (map (\<lambda>newLabel. Issues_CreateLabel owner name (github_Label_of newLabel))
                labelsToCreate) st1 of
        (Some err, st2) \<Rightarrow> (Some err, st2)
      | (None, st2) \<Rightarrow>
          call_each client ''Error updating a label\<newline>''
            (map (\<lambda>updateLabel.
                    Issues_EditLabel owner name (label.Name updateLabel)
                      (github_Label_of updateLabel))
               labelsToUpdate) st2)))"

subsection \<open>Creating a branch\<close>

definition fmtGithubURL :: "string \<Rightarrow> string \<Rightarrow> string \<Rightarrow> string" where
  "fmtGithubURL owner name tok =
     ''https://'' @ tok @ ''@github.com/'' @ owner @ ''/'' @ name @ ''.git''"

text \<open>The loop of createBranch over \<open>branches\<close>.\<close>

fun createBranch_loop ::
  "'w client \<Rightarrow> string \<Rightarrow> string list \<Rightarrow> 'w state \<Rightarrow> error option \<times> 'w state"
where
  "createBranch_loop client headRef [] st = (None, st)"
| "createBranch_loop client headRef (branch # rest) st =
     (case invoke client (git_SetReference (''refs/heads/'' @ branch) headRef) st of
        (Some err, st1) \<Rightarrow>
          (Some (Wrap err (''Error setting reference storer for branch '' @ branch)), st1)
      | (None, st1) \<Rightarrow>
          (case invoke client git_Push st1 of
             (Some err, st2) \<Rightarrow>
               (Some (Wrap err (''Error pushing reference for branch '' @ branch)), st2)
           | (None, st2) \<Rightarrow> createBranch_loop client headRef rest st2))"

text \<open>
  createBranch: clone, read HEAD, then the loop. Reading HEAD is recorded among the
  calls; it does not change the outside world.
\<close>

definition createBranch ::
  "'w client \<Rightarrow> string list \<Rightarrow> string \<Rightarrow> 'w state \<Rightarrow> error option \<times> 'w state"
where
  "createBranch client branches url st =
     (case invoke client (git_Clone url) st of
        (Some err, st1) \<Rightarrow> (Some (Wrap err ''Error initializing git repository''), st1)
      | (None, st1) \<Rightarrow>
          (case repo_Head client (fst st1) of
             Inl err \<Rightarrow>
               (Some (Wrap err ''Error getting repository head''), (fst st1, snd st1 @ [git_Head]))
           | Inr headRef \<Rightarrow>
               createBranch_loop client headRef branches (fst st1, snd st1 @ [git_Head])))"

subsection \<open>Branch protection\<close>

definition branch_map :: "branch list \<Rightarrow> branch gomap" where
  "branch_map githubBranches =
     fold (\<lambda>githubBranch m. AList.update (branch.Name githubBranch) githubBranch m)
       githubBranches []"

text \<open>
  The loop over \<open>branchesSettings\<close>, with \<open>branchesToUpdate\<close> and
  \<open>deleteBranchesMap\<close>. The source passes the single name \<open>branchSettings.Name\<close> to
  createBranch, whose parameter is a slice of names; the model passes the one-element
  slice. \<open>reflect.DeepEqual\<close> on two \<open>branch\<close> values is equality of the records.
\<close>

fun branches_loop ::
  "'w client \<Rightarrow> string \<Rightarrow> string \<Rightarrow> branch list \<Rightarrow> branch list \<times> branch gomap \<Rightarrow> 'w state \<Rightarrow>
   (error + branch list \<times> branch gomap) \<times> 'w state"
where
  "branches_loop client owner name [] vars st = (Inr vars, st)"
| "branches_loop client owner name (branchSettings # rest) (branchesToUpdate, deleteBranchesMap) st =
     (case map_of deleteBranchesMap (branch.Name branchSettings) of
        None \<Rightarrow>
          (case createBranch client [branch.Name branchSettings]
                  (fmtGithubURL owner name (token client)) st of
             (Some err, st1) \<Rightarrow> (Inl (Wrap err ''Error creating branch\<newline>''), st1)
           | (None, st1) \<Rightarrow>
               branches_loop client owner name rest
                 (branchesToUpdate @ [branchSettings], deleteBranchesMap) st1)
      | Some githubBranch \<Rightarrow>
          branches_loop client owner name rest
            ((if githubBranch \<noteq> branchSettings then branchesToUpdate @ [branchSettings]
              else branchesToUpdate),
             AList.delete (branch.Name branchSettings) deleteBranchesMap) st)"

definition protection_request :: "branch \<Rightarrow> github_ProtectionRequest" where
  "protection_request branchSettings =
     (let reviews = protection.RequiredApprovingReviewCount (Protection branchSettings);
          requiredReviews =
            (if requiredApprovingReviewCount.RequiredApprovingReviewCount reviews = 0 then None
             else Some \<lparr>PRR_DismissStaleReviews = DismissStaleReviews reviews,
                        PRR_RequireCodeOwnerReviews = RequireCodeOwnerReviews reviews,
                        PRR_RequiredApprovingReviewCount =
                          requiredApprovingReviewCount.RequiredApprovingReviewCount reviews\<rparr>)
      in \<lparr>Req_RequiredStatusChecks =
             Some \<lparr>RSC_Strict = Strict (RequiredStatusChecks (Protection branchSettings)),
                   RSC_Contexts = Contexts (RequiredStatusChecks (Protection branchSettings))\<rparr>,
           Req_RequiredPullRequestReviews = requiredReviews,
           Req_EnforceAdmins = EnforceAdmins (Protection branchSettings)\<rparr>)"

definition updateBranchSettings ::
  "'w client \<Rightarrow> string \<Rightarrow> string \<Rightarrow> branch list \<Rightarrow> branch list \<Rightarrow> 'w state \<Rightarrow>
   error option \<times> 'w state"
where
  "updateBranchSettings client owner name githubBranches branchesSettings st =
     (case branches_loop client owner name branchesSettings ([], branch_map githubBranches) st of
        (Inl err, st1) \<Rightarrow> (Some err, st1)
      | (Inr (branchesToUpdate, deleteBranchesMap), st1) \<Rightarrow>
     (case call_each client ''Error removing branch protection\<newline>''
             (map (\<lambda>(branchToDelete, _).
                     Repositories_RemoveBranchProtection owner name branchToDelete)
                (range_map client ''deleteBranchesMap'' deleteBranchesMap)) st1 of
        (Some err, st2) \<Rightarrow> (Some err, st2)
      | (None, st2) \<Rightarrow>
          call_each client ''Error updating branch protection\<newline>''
            (map (\<lambda>branchSettings.
                    Repositories_UpdateBranchProtection owner name (branch.Name branchSettings)
                      (protection_request branchSettings))
               branchesToUpdate) st2))"

subsection \<open>Webhooks\<close>

definition webhook_map :: "webhook list \<Rightarrow> webhook gomap" where
  "webhook_map githubWebhooks =
     fold (\<lambda>githubWebhook m. AList.update (URL githubWebhook) githubWebhook m)
       githubWebhooks []"

definition github_Hook_of :: "webhook \<Rightarrow> github_Hook" where
  "github_Hook_of w =
     \<lparr>Hook_ID = None,
      Hook_Events = Events w,
      Hook_Active = Some True,
      Hook_Config =
        [(''content_type'', IString (ContentType w)),
         (''secret'', IString (Secret w)),
         (''url'', IString (URL w))]\<rparr>"

text \<open>
  The loop over \<open>webhooksSettings\<close>, with \<open>webhooksToUpdate\<close> and
  \<open>deleteWebhooksMap\<close>. The assignments \<open>webhookSettings.ID = githubWebhook.ID\<close> and
  \<open>githubWebhook.Secret = webhookSettings.Secret\<close> change the two local copies; the
  changed copy of \<open>webhookSettings\<close> is what is appended.
\<close>

fun webhooks_loop ::
  "'w client \<Rightarrow> string \<Rightarrow> string \<Rightarrow> webhook list \<Rightarrow> webhook list \<times> webhook gomap \<Rightarrow> 'w state \<Rightarrow>
   (error + webhook list \<times> webhook gomap) \<times> 'w state"
where
  "webhooks_loop client owner name [] vars st = (Inr vars, st)"
| "webhooks_loop client owner name (webhookSettings # rest) (webhooksToUpdate, deleteWebhooksMap) st =
     (case map_of deleteWebhooksMap (URL webhookSettings) of
        None \<Rightarrow>
          (case invoke client
                  (Repositories_CreateHook owner name (github_Hook_of webhookSettings)) st of
             (Some err, st1) \<Rightarrow> (Inl (Wrap err ''Error creating webhook\<newline>''), st1)
           | (None, st1) \<Rightarrow>
               webhooks_loop client owner name rest (webhooksToUpdate, deleteWebhooksMap) st1)
      | Some githubWebhook \<Rightarrow>
          let webhookSettings' = webhookSettings\<lparr>ID := ID githubWebhook\<rparr>;
              githubWebhook' = githubWebhook\<lparr>Secret := Secret webhookSettings'\<rparr>
          in webhooks_loop client owner name rest
               ((if githubWebhook' \<noteq> webhookSettings'
                 then webhooksToUpdate @ [webhookSettings'] else webhooksToUpdate),
                AList.delete (URL webhookSettings) deleteWebhooksMap) st)"

definition updateWebhooks ::
  "'w client \<Rightarrow> string \<Rightarrow> string \<Rightarrow> webhook list \<Rightarrow> webhook list \<Rightarrow> 'w state \<Rightarrow>
   error option \<times> 'w state"
where
  "updateWebhooks client owner name githubWebhooks webhooksSettings st =
     (case webhooks_loop client owner name webhooksSettings ([], webhook_map githubWebhooks) st of
        (Inl err, st1) \<Rightarrow> (Some err, st1)
      | (Inr (webhooksToUpdate, deleteWebhooksMap), st1) \<Rightarrow>
     (case call_each client ''Error removing webhook\<newline>''
             (map (\<lambda>(_, webhookToDelete).
                     Repositories_DeleteHook owner name (ID webhookToDelete))
                (range_map client ''deleteWebhooksMap'' deleteWebhooksMap)) st1 of
        (Some err, st2) \<Rightarrow> (Some err, st2)
      | (None, st2) \<Rightarrow>
          call_each client ''Error updating webhook\<newline>''
            (map (\<lambda>webhookToUpdate.
                    Repositories_EditHook owner name (ID webhookToUpdate)
                      (github_Hook_of webhookToUpdate))
               webhooksToUpdate) st2))"

section \<open>The orchestrator: Apply\<close>

definition Apply :: "'w client \<Rightarrow> Settings \<Rightarrow> 'w state \<Rightarrow> unit result \<times> 'w state" where
  "Apply client settings st =
     (let owner = Owner (Repository settings);
          name = repository.Name (Repository settings)
      in
      case GetSettingsFromGithub client (fst st) owner name of
        Panic p \<Rightarrow> (Panic p, st)
      | Err err \<Rightarrow> (Err (Wrap err ''Error getting settings from github''), st)
      | Ok githubSettings \<Rightarrow>
     (case updateRepoSettings client owner name
             (Repository githubSettings) (Repository settings) st of
        (Some err, st1) \<Rightarrow> (Err (Wrap err ''Error updating repository settings''), st1)
      | (None, st1) \<Rightarrow>
     (case updateLabels client owner name (Labels githubSettings) (Labels settings) st1 of
        (Some err, st2) \<Rightarrow> (Err (Wrap err ''Error updating repository labels''), st2)
      | (None, st2) \<Rightarrow>
     (case updateBranchSettings client owner name
             (Branches githubSettings) (Branches settings) st2 of
        (Some err, st3) \<Rightarrow>
          (Err (Wrap err ''Error updating repository branches protection''), st3)
      | (None, st3) \<Rightarrow>
     (case updateWebhooks client owner name (Webhooks githubSettings) (Webhooks settings) st3 of
        (Some err, st4) \<Rightarrow> (Err (Wrap err ''Error updating repository webhooks''), st4)
      | (None, st4) \<Rightarrow>
     (case updateTopicsSettings client owner name (Topics githubSettings) (Topics settings) st4 of
        (Some err, st5) \<Rightarrow> (Err (Wrap err ''Error updating repository topics''), st5)
      | (None, st5) \<Rightarrow> (Ok (), st5)))))))"

section \<open>Notions for stating the properties\<close>

text \<open>
  What one iteration of the loop of GetSettingsFromFile does to the branch entry it
  visits.
\<close>

definition normalize_branch :: "branch \<Rightarrow> branch" where
  "normalize_branch b =
     (let r = protection.RequiredApprovingReviewCount (Protection b) in
      b\<lparr>Protection := (Protection b)
          \<lparr>Enabled := True,
           protection.RequiredApprovingReviewCount :=
             (if requiredApprovingReviewCount.RequiredApprovingReviewCount r = 0
              then r\<lparr>DismissStaleReviews := False, RequireCodeOwnerReviews := False\<rparr>
              else r)\<rparr>\<rparr>)"

text \<open>
  The position of each call in the order that the code follows: the repository edit; for
  labels the deletes, then the creates, then the updates; for branches the creation of
  missing branches, then the removals of protection, then the updates of protection; for
  webhooks the creates, then the deletes, then the updates; last the topics.
\<close>

fun phase :: "call \<Rightarrow> nat" where
  "phase (Repositories_Edit owner name r) = 0"
| "phase (Issues_DeleteLabel owner name l) = 1"
| "phase (Issues_CreateLabel owner name l) = 2"
| "phase (Issues_EditLabel owner name old l) = 3"
| "phase (git_Clone url) = 4"
| "phase git_Head = 4"
| "phase (git_SetReference ref h) = 4"
| "phase git_Push = 4"
| "phase (Repositories_RemoveBranchProtection owner name b) = 5"
| "phase (Repositories_UpdateBranchProtection owner name b req) = 6"
| "phase (Repositories_CreateHook owner name h) = 7"
| "phase (Repositories_DeleteHook owner name i) = 8"
| "phase (Repositories_EditHook owner name i h) = 9"
| "phase (Repositories_ReplaceAllTopics owner name ts) = 10"

text \<open>
  The order that the specification states for labels and webhooks: within a kind all
  creates, then all deletes, then all updates.
\<close>

fun spec_phase :: "call \<Rightarrow> nat" where
  "spec_phase (Repositories_Edit owner name r) = 0"
| "spec_phase (Issues_CreateLabel owner name l) = 1"
| "spec_phase (Issues_DeleteLabel owner name l) = 2"
| "spec_phase (Issues_EditLabel owner name old l) = 3"
| "spec_phase (git_Clone url) = 4"
| "spec_phase git_Head = 4"
| "spec_phase (git_SetReference ref h) = 4"
| "spec_phase git_Push = 4"
| "spec_phase (Repositories_RemoveBranchProtection owner name b) = 5"
| "spec_phase (Repositories_UpdateBranchProtection owner name b req) = 6"
| "spec_phase (Repositories_CreateHook owner name h) = 7"
| "spec_phase (Repositories_DeleteHook owner name i) = 8"
| "spec_phase (Repositories_EditHook owner name i h) = 9"
| "spec_phase (Repositories_ReplaceAllTopics owner name ts) = 10"

text \<open>The calls that a step adds to the run: those of \<open>st'\<close> after those of \<open>st\<close>.\<close>

definition calls_of :: "'w state \<Rightarrow> 'w state \<Rightarrow> call list" where
  "calls_of st st' = drop (length (snd st)) (snd st')"

text \<open>
  \<open>within lo hi cs\<close>: the calls \<open>cs\<close> are ordered by phase and their phases lie between
  \<open>lo\<close> and \<open>hi\<close>. \<open>extends lo hi st st'\<close>: the state \<open>st'\<close> has the calls of \<open>st\<close>
  followed by such calls.
\<close>

definition within :: "nat \<Rightarrow> nat \<Rightarrow> call list \<Rightarrow> bool" where
  "within lo hi cs \<longleftrightarrow> sorted (map phase cs) \<and> (\<forall>c \<in> set cs. lo \<le> phase c \<and> phase c \<le> hi)"

definition extends :: "nat \<Rightarrow> nat \<Rightarrow> 'w state \<Rightarrow> 'w state \<Rightarrow> bool" where
  "extends lo hi st st' \<longleftrightarrow> (\<exists>ext. snd st' = snd st @ ext \<and> within lo hi ext)"

text \<open>
  A run of a sequence of calls, each with the message its error is wrapped in, that stops
  at the first error; and the sequence that updateLabels issues when no call fails: the
  deletes, the creates, the updates.
\<close>

fun run_calls :: "'w client \<Rightarrow> (call \<times> string) list \<Rightarrow> 'w state \<Rightarrow> error option \<times> 'w state" where
  "run_calls client [] st = (None, st)"
| "run_calls client ((c, msg) # rest) st =
     (case invoke client c st of
        (Some err, st') \<Rightarrow> (Some (Wrap err msg), st')
      | (None, st') \<Rightarrow> run_calls client rest st')"

definition updateLabels_calls ::
  "'w client \<Rightarrow> string \<Rightarrow> string \<Rightarrow> label list \<Rightarrow> label list \<Rightarrow> (call \<times> string) list" where
  "updateLabels_calls client owner name githubLabels labelsSettings =
     (case labels_loop labelsSettings ([], [], label_map githubLabels) of
        (labelsToCreate, labelsToUpdate, deleteLabelMap) \<Rightarrow>
          map (\<lambda>(labelName, _).
                 (Issues_DeleteLabel owner name labelName, ''Error deleting a label\<newline>''))
            (range_map client ''deleteLabelMap'' deleteLabelMap) @
          map (\<lambda>newLabel.
                 (Issues_CreateLabel owner name (github_Label_of newLabel),
                  ''Error creating a label\<newline>''))
            labelsToCreate @
          map (\<lambda>updateLabel.
                 (Issues_EditLabel owner name (label.Name updateLabel) (github_Label_of updateLabel),
                  ''Error updating a label\<newline>''))
            labelsToUpdate)"

text \<open>
  The sets of the specification. \<open>absent_from key others xs\<close> are the entities of
  \<open>xs\<close> whose identity is absent from \<open>others\<close>: with the remote entities \<open>A\<close> and the
  desired entities \<open>D\<close>, the entities to create are \<open>absent_from key A D\<close> and the
  entities to delete are \<open>absent_from key D A\<close>. \<open>common_differing key differ A D\<close> are the
  desired entities whose identity occurs among the remote ones with attributes that differ.
\<close>

definition absent_from :: "('a \<Rightarrow> string) \<Rightarrow> 'a list \<Rightarrow> 'a list \<Rightarrow> 'a list" where
  "absent_from key others xs = filter (\<lambda>x. key x \<notin> key ` set others) xs"

definition common_differing ::
  "('a \<Rightarrow> string) \<Rightarrow> ('a \<Rightarrow> 'a \<Rightarrow> bool) \<Rightarrow> 'a list \<Rightarrow> 'a list \<Rightarrow> 'a list" where
  "common_differing key differ A D = filter (\<lambda>d. \<exists>a \<in> set A. key a = key d \<and> differ a d) D"

text \<open>
  The comparison that the webhook loop makes between the remote entry \<open>a\<close> and the
  desired entry \<open>d\<close> found under the same URL, and the desired entry as the loop schedules
  it for an update, with the ID of its remote counterpart.
\<close>

definition webhook_differ :: "webhook \<Rightarrow> webhook \<Rightarrow> bool" where
  "webhook_differ a d \<longleftrightarrow> a\<lparr>Secret := Secret d\<rparr> \<noteq> d\<lparr>ID := ID a\<rparr>"

definition with_remote_ID :: "webhook list \<Rightarrow> webhook \<Rightarrow> webhook" where
  "with_remote_ID A d = (case find (\<lambda>a. URL a = URL d) A of None \<Rightarrow> d | Some a \<Rightarrow> d\<lparr>ID := ID a\<rparr>)"

text \<open>The elements of a slice; the nil slice has none.\<close>

definition elements :: "'a slice \<Rightarrow> 'a list" where
  "elements a = (case a of None \<Rightarrow> [] | Some xs \<Rightarrow> xs)"

text \<open>The reference that a call sets in the clone, if it sets one.\<close>

fun ref_of :: "call \<Rightarrow> string option" where
  "ref_of (git_SetReference ref h) = Some ref"
| "ref_of c = None"

text \<open>The hook that a call sends as an update, if it is an update of a hook.\<close>

fun edited_hook :: "call \<Rightarrow> github_Hook option" where
  "edited_hook (Repositories_EditHook owner name i h) = Some h"
| "edited_hook c = None"

text \<open>
  The branch that a call names: the removal and the update of a protection name their
  branch, and setting the reference \<open>refs/heads/<name>\<close> names the branch \<open>name\<close>.
\<close>

fun call_branch :: "call \<Rightarrow> string option" where
  "call_branch (Repositories_RemoveBranchProtection owner name b) = Some b"
| "call_branch (Repositories_UpdateBranchProtection owner name b req) = Some b"
| "call_branch (git_SetReference ref h) =
     (if take 11 ref = ''refs/heads/'' then Some (drop 11 ref) else None)"
| "call_branch c = None"

section \<open>An example remote\<close>

text \<open>
  A small hosted repository that stores what it is sent, as a client for the concrete runs
  below: the repository attributes (an edit overrides the fields that are set), the labels,
  the branches with their protection, the hooks (a new hook gets a fresh ID), and the
  references set in the in-memory clone, which a push turns into branches. No call fails.
\<close>

record remote =
  hosted_repo :: github_Repository
  hosted_labels :: "github_Label list"
  hosted_branches :: "(string \<times> github_Protection option) list"
  hosted_hooks :: "github_Hook list"
  local_refs :: "string list"

definition or_else :: "'a option \<Rightarrow> 'a option \<Rightarrow> 'a option" where
  "or_else new old = (case new of None \<Rightarrow> old | Some v \<Rightarrow> Some v)"

definition edit_repository :: "github_Repository \<Rightarrow> github_Repository \<Rightarrow> github_Repository" where
  "edit_repository new old =
     \<lparr>Repo_Name = or_else (Repo_Name new) (Repo_Name old),
      Repo_Owner = or_else (Repo_Owner new) (Repo_Owner old),
      Repo_Description = or_else (Repo_Description new) (Repo_Description old),
      Repo_Homepage = or_else (Repo_Homepage new) (Repo_Homepage old),
      Repo_DefaultBranch = or_else (Repo_DefaultBranch new) (Repo_DefaultBranch old),
      Repo_Private = or_else (Repo_Private new) (Repo_Private old),
      Repo_HasIssues = or_else (Repo_HasIssues new) (Repo_HasIssues old),
      Repo_HasProjects = or_else (Repo_HasProjects new) (Repo_HasProjects old),
      Repo_HasPages = or_else (Repo_HasPages new) (Repo_HasPages old),
      Repo_HasWiki = or_else (Repo_HasWiki new) (Repo_HasWiki old),
      Repo_HasDownloads = or_else (Repo_HasDownloads new) (Repo_HasDownloads old),
      Repo_IsTemplate = or_else (Repo_IsTemplate new) (Repo_IsTemplate old),
      Repo_Archived = or_else (Repo_Archived new) (Repo_Archived old),
      Repo_AllowSquashMerge = or_else (Repo_AllowSquashMerge new) (Repo_AllowSquashMerge old),
      Repo_AllowMergeCommit = or_else (Repo_AllowMergeCommit new) (Repo_AllowMergeCommit old),
      Repo_AllowRebaseMerge = or_else (Repo_AllowRebaseMerge new) (Repo_AllowRebaseMerge old),
      Repo_Topics = or_else (Repo_Topics new) (Repo_Topics old)\<rparr>"

definition pushed_branches :: "string list \<Rightarrow> (string \<times> github_Protection option) list \<Rightarrow>
    (string \<times> github_Protection option) list" where
  "pushed_branches refs branches =
     branches @
     map (\<lambda>ref. (drop 11 ref, None))
       (filter (\<lambda>ref. take 11 ref = ''refs/heads/'' \<and> drop 11 ref \<notin> fst ` set branches) (remdups refs))"

fun hosted_exec :: "call \<Rightarrow> remote \<Rightarrow> error option \<times> remote" where
  "hosted_exec (Repositories_Edit owner name repo) r =
     (None, r\<lparr>hosted_repo := edit_repository repo (hosted_repo r)\<rparr>)"
| "hosted_exec (Issues_DeleteLabel owner name labelName) r =
     (None, r\<lparr>hosted_labels := filter (\<lambda>l. Label_Name l \<noteq> Some labelName) (hosted_labels r)\<rparr>)"
| "hosted_exec (Issues_CreateLabel owner name l) r =
     (None, r\<lparr>hosted_labels := hosted_labels r @ [l]\<rparr>)"
| "hosted_exec (Issues_EditLabel owner name labelName l) r =
     (None, r\<lparr>hosted_labels :=
               map (\<lambda>old. if Label_Name old = Some labelName then l else old) (hosted_labels r)\<rparr>)"
| "hosted_exec (Repositories_RemoveBranchProtection owner name b) r =
     (None, r\<lparr>hosted_branches :=
               map (\<lambda>(b', p). if b' = b then (b', None) else (b', p)) (hosted_branches r)\<rparr>)"
| "hosted_exec (Repositories_UpdateBranchProtection owner name b req) r =
     (None, r\<lparr>hosted_branches :=
               map (\<lambda>(b', p). if b' = b
                      then (b', Some \<lparr>Prot_RequiredStatusChecks = Req_RequiredStatusChecks req,
                                      Prot_RequiredPullRequestReviews = Req_RequiredPullRequestReviews req,
                                      Prot_EnforceAdmins = Some \<lparr>Admin_Enabled = Req_EnforceAdmins req\<rparr>\<rparr>)
                      else (b', p)) (hosted_branches r)\<rparr>)"
| "hosted_exec (Repositories_CreateHook owner name h) r =
     (None, r\<lparr>hosted_hooks :=
               hosted_hooks r @
               [h\<lparr>Hook_ID := Some (1 + fold max (map (\<lambda>h. GetInt64 (Hook_ID h)) (hosted_hooks r)) 0)\<rparr>]\<rparr>)"
| "hosted_exec (Repositories_DeleteHook owner name i) r =
     (None, r\<lparr>hosted_hooks := filter (\<lambda>h. Hook_ID h \<noteq> Some i) (hosted_hooks r)\<rparr>)"
| "hosted_exec (Repositories_EditHook owner name i h) r =
     (None, r\<lparr>hosted_hooks :=
               map (\<lambda>old. if Hook_ID old = Some i then h\<lparr>Hook_ID := Some i\<rparr> else old) (hosted_hooks r)\<rparr>)"
| "hosted_exec (Repositories_ReplaceAllTopics owner name topics) r =
     (None, r\<lparr>hosted_repo := (hosted_repo r)
               \<lparr>Repo_Topics := Some (case topics of None \<Rightarrow> [] | Some ts \<Rightarrow> ts)\<rparr>\<rparr>)"
| "hosted_exec (git_Clone url) r = (None, r\<lparr>local_refs := []\<rparr>)"
| "hosted_exec git_Head r = (None, r)"
| "hosted_exec (git_SetReference ref h) r = (None, r\<lparr>local_refs := local_refs r @ [ref]\<rparr>)"
| "hosted_exec git_Push r =
     (None, r\<lparr>hosted_branches := pushed_branches (local_refs r) (hosted_branches r)\<rparr>)"

definition hosted :: "remote client" where
  "hosted =
     \<lparr>token = ''token'',
      Repositories_Get = (\<lambda>r owner name. Inr (hosted_repo r)),
      Issues_ListLabels = (\<lambda>r owner name. Inr (hosted_labels r)),
      Repositories_ListBranches =
        (\<lambda>r owner name.
           Inr (map (\<lambda>(b, p). \<lparr>Branch_Name = Some b, Branch_Protected = Some (p \<noteq> None)\<rparr>)
                  (hosted_branches r))),
      Repositories_GetBranchProtection =
        (\<lambda>r owner name b.
           case map_of (hosted_branches r) b of
             Some (Some p) \<Rightarrow> Inr p
           | _ \<Rightarrow> Inl (Error ''Branch not protected'')),
      Repositories_ListHooks = (\<lambda>r owner name. Inr (hosted_hooks r)),
      repo_Head = (\<lambda>r. Inr ''c0ffee''),
      exec = hosted_exec,
      range_rank = (\<lambda>site key. 0)\<rparr>"

definition example_hosted_repo :: github_Repository where
  "example_hosted_repo =
     \<lparr>Repo_Name = Some ''repo'', Repo_Owner = Some \<lparr>User_Login = Some ''owner''\<rparr>,
      Repo_Description = Some ''a repository'', Repo_Homepage = Some [],
      Repo_DefaultBranch = Some ''main'', Repo_Private = Some False,
      Repo_HasIssues = Some True, Repo_HasProjects = Some False, Repo_HasPages = Some True,
      Repo_HasWiki = Some False, Repo_HasDownloads = Some False, Repo_IsTemplate = Some False,
      Repo_Archived = Some False, Repo_AllowSquashMerge = Some True,
      Repo_AllowMergeCommit = Some True, Repo_AllowRebaseMerge = Some True,
      Repo_Topics = Some []\<rparr>"

definition example_remote :: remote where
  "example_remote =
     \<lparr>hosted_repo = example_hosted_repo, hosted_labels = [], hosted_branches = [],
      hosted_hooks = [], local_refs = []\<rparr>"

section \<open>Example settings and states\<close>

text \<open>
  The settings, snapshots and states of the example remote on which the theorems below
  are instantiated.
\<close>

definition example_raw_branch :: branch where
  "example_raw_branch =
     \<lparr>branch.Name = ''main'',
      Protection =
        \<lparr>Enabled = False, EnforceAdmins = True,
         protection.RequiredApprovingReviewCount =
           \<lparr>requiredApprovingReviewCount.RequiredApprovingReviewCount = 0,
            DismissStaleReviews = True, RequireCodeOwnerReviews = True\<rparr>,
         RequiredStatusChecks = \<lparr>Strict = True, Contexts = Some [''ci'']\<rparr>\<rparr>\<rparr>"

definition example_repository :: repository where
  "example_repository =
     \<lparr>repository.Name = ''repo'', Owner = ''owner'', Description = ''a repository'',
      Homepage = [], DefaultBranch = ''main'', Private = False, HasIssues = True,
      HasProjects = False, HasPages = False, HasWiki = False, HasDownloads = False,
      IsTemplate = False, Archived = False, AllowSquashMerge = True,
      AllowMergeCommit = True, AllowRebaseMerge = True\<rparr>"

definition example_raw_settings :: Settings where
  "example_raw_settings =
     \<lparr>Repository = example_repository, Labels = [], Branches = [example_raw_branch],
      Webhooks = [], Topics = None\<rparr>"

definition bug_label :: label where
  "bug_label = \<lparr>label.Name = ''bug'', Description = ''something is broken'', Color = ''d73a4a''\<rparr>"

definition feature_label :: label where
  "feature_label = \<lparr>label.Name = ''feature'', Description = ''a new feature'', Color = ''a2eeef''\<rparr>"

definition relabel_remote :: remote where
  "relabel_remote =
     example_remote\<lparr>hosted_labels := [github_Label_of bug_label],
       hosted_repo := example_hosted_repo\<lparr>Repo_HasPages := Some False\<rparr>\<rparr>"

definition relabel_settings :: Settings where
  "relabel_settings =
     \<lparr>Repository = example_repository, Labels = [feature_label], Branches = [],
      Webhooks = [], Topics = Some []\<rparr>"

definition pages_settings :: Settings where
  "pages_settings =
     \<lparr>Repository = example_repository\<lparr>HasPages := True\<rparr>, Labels = [], Branches = [],
      Webhooks = [], Topics = Some []\<rparr>"

definition rejecting :: "(call \<Rightarrow> bool) \<Rightarrow> remote client" where
  "rejecting bad =
     hosted\<lparr>exec := (\<lambda>c r. if bad c then (Some (Error ''rejected''), r) else hosted_exec c r)\<rparr>"

definition relabel_snapshot :: Settings where
  "relabel_snapshot =
     \<lparr>Repository = example_repository, Labels = [bug_label], Branches = [], Webhooks = [],
      Topics = Some []\<rparr>"

definition no_bug_remote :: remote where
  "no_bug_remote = relabel_remote\<lparr>hosted_labels := []\<rparr>"

definition main_branch :: branch where
  "main_branch = normalize_branch example_raw_branch"

definition dev_branch :: branch where
  "dev_branch = main_branch\<lparr>branch.Name := ''dev''\<rparr>"

definition old_branch :: branch where
  "old_branch =
     \<lparr>branch.Name = ''old'',
      Protection =
        \<lparr>Enabled = False, EnforceAdmins = False,
         protection.RequiredApprovingReviewCount =
           \<lparr>requiredApprovingReviewCount.RequiredApprovingReviewCount = 0,
            DismissStaleReviews = False, RequireCodeOwnerReviews = False\<rparr>,
         RequiredStatusChecks = \<lparr>Strict = False, Contexts = None\<rparr>\<rparr>\<rparr>"

definition main_protection :: github_Protection where
  "main_protection =
     \<lparr>Prot_RequiredStatusChecks = Some \<lparr>RSC_Strict = True, RSC_Contexts = Some [''ci'']\<rparr>,
      Prot_RequiredPullRequestReviews = None,
      Prot_EnforceAdmins = Some \<lparr>Admin_Enabled = True\<rparr>\<rparr>"

definition branch_remote :: remote where
  "branch_remote =
     example_remote\<lparr>hosted_branches := [(''main'', Some main_protection), (''old'', None)]\<rparr>"

definition dev_pushed_remote :: remote where
  "dev_pushed_remote =
     branch_remote\<lparr>hosted_branches :=
                      [(''main'', Some main_protection), (''old'', None), (''dev'', None)],
                    local_refs := [''refs/heads/dev'']\<rparr>"

definition remote_hook :: webhook where
  "remote_hook =
     \<lparr>ID = 7, URL = ''https://ci.example.com/hook'', ContentType = ''json'',
      Secret = ''********'', Events = Some [''push'']\<rparr>"

definition desired_hook :: webhook where
  "desired_hook =
     \<lparr>ID = 0, URL = ''https://ci.example.com/hook'', ContentType = ''json'',
      Secret = ''s3cret'', Events = Some [''push'']\<rparr>"

definition changed_hook :: webhook where
  "changed_hook = desired_hook\<lparr>Events := Some [''push'', ''pull_request'']\<rparr>"

definition new_hook :: webhook where
  "new_hook = desired_hook\<lparr>URL := ''https://chat.example.com/hook''\<rparr>"

definition two_branch_settings :: "branch list" where
  "two_branch_settings = [main_branch, dev_branch]"

definition branch_snapshot :: Settings where
  "branch_snapshot =
     \<lparr>Repository = example_repository, Labels = [], Branches = [main_branch, old_branch],
      Webhooks = [], Topics = Some []\<rparr>"

definition main_only_settings :: Settings where
  "main_only_settings =
     \<lparr>Repository = example_repository, Labels = [], Branches = [main_branch],
      Webhooks = [], Topics = Some []\<rparr>"

section \<open>Properties of GetSettingsFromFile\<close>

lemma normalize_branches_done:
  "\<not> i < length bs \<Longrightarrow> normalize_branches i bs = bs"
  by (subst normalize_branches.simps) simp

lemma normalize_branches_step:
  "i < length bs \<Longrightarrow>
   normalize_branches i bs = normalize_branches (Suc i) (bs[i := normalize_branch (bs ! i)])"
  by (subst normalize_branches.simps) (simp add: Let_def normalize_branch_def)

lemma normalize_branches_take_drop:
  "length bs - i = n \<Longrightarrow> i \<le> length bs \<Longrightarrow>
   normalize_branches i bs = take i bs @ map normalize_branch (drop i bs)"
proof (induction n arbitrary: i bs)
  case 0
  then show ?case by (simp add: normalize_branches_done)
next
  case (Suc n)
  then have lt: "i < length bs" by simp
  let ?bs2 = "bs[i := normalize_branch (bs ! i)]"
  have "normalize_branches (Suc i) ?bs2 =
        take (Suc i) ?bs2 @ map normalize_branch (drop (Suc i) ?bs2)"
    using Suc.prems lt by (intro Suc.IH) simp_all
  moreover have "take (Suc i) ?bs2 = take i bs @ [normalize_branch (bs ! i)]"
    using lt by (simp add: take_Suc_conv_app_nth)
  moreover have "drop i bs = bs ! i # drop (Suc i) bs"
    using lt by (simp add: Cons_nth_drop_Suc)
  ultimately show ?case
    using lt by (simp add: normalize_branches_step)
qed

lemma normalize_branches_map: "normalize_branches 0 bs = map normalize_branch bs"
  using normalize_branches_take_drop[of bs 0] by simp

text \<open>
  C5. Whatever the decoder produced, every branch entry of the settings that
  GetSettingsFromFile returns has \<open>Protection.Enabled = true\<close>, and every entry whose
  required approving review count is 0 has \<open>DismissStaleReviews = false\<close> and
  \<open>RequireCodeOwnerReviews = false\<close>.
\<close>

theorem GetSettingsFromFile_normalized:
  assumes "GetSettingsFromFile ReadFile Unmarshal file = Inr settings"
  shows "\<forall>b \<in> set (Branches settings).
           Enabled (Protection b) \<and>
           (requiredApprovingReviewCount.RequiredApprovingReviewCount
              (protection.RequiredApprovingReviewCount (Protection b)) = 0 \<longrightarrow>
            \<not> DismissStaleReviews (protection.RequiredApprovingReviewCount (Protection b)) \<and>
            \<not> RequireCodeOwnerReviews (protection.RequiredApprovingReviewCount (Protection b)))"
proof -
  from assms obtain content raw where
    "Unmarshal content = Inr raw"
    and s: "settings = raw\<lparr>Branches := normalize_branches 0 (Branches raw)\<rparr>"
    by (auto simp: GetSettingsFromFile_def split: sum.splits)
  have "Branches settings = map normalize_branch (Branches raw)"
    by (simp add: s normalize_branches_map)
  then show ?thesis
    by (auto simp: normalize_branch_def Let_def)
qed

text \<open>
  An instance: the decoder yields one branch entry with the review count 0 and both
  review flags set; the loaded entry is enabled and both flags are cleared.
\<close>

theorem GetSettingsFromFile_normalized_witness:
  "GetSettingsFromFile (\<lambda>file. Inr ''branches: ...'') (\<lambda>content. Inr example_raw_settings)
     ''settings.yml''
   = Inr (example_raw_settings\<lparr>Branches := [normalize_branch example_raw_branch]\<rparr>) \<and>
   DismissStaleReviews (protection.RequiredApprovingReviewCount (Protection example_raw_branch)) \<and>
   Enabled (Protection (normalize_branch example_raw_branch)) \<and>
   \<not> DismissStaleReviews
       (protection.RequiredApprovingReviewCount (Protection (normalize_branch example_raw_branch))) \<and>
   \<not> RequireCodeOwnerReviews
       (protection.RequiredApprovingReviewCount (Protection (normalize_branch example_raw_branch)))"
proof -
  have loaded:
    "GetSettingsFromFile (\<lambda>file. Inr ''branches: ...'') (\<lambda>content. Inr example_raw_settings)
       ''settings.yml''
     = Inr (example_raw_settings\<lparr>Branches := [normalize_branch example_raw_branch]\<rparr>)"
    by (simp add: GetSettingsFromFile_def normalize_branches_map example_raw_settings_def)
  from GetSettingsFromFile_normalized[OF loaded] loaded show ?thesis
    by (simp add: example_raw_branch_def normalize_branch_def)
qed

section \<open>The order of the calls of a run\<close>

lemma invoke_calls: "invoke client c st = (r, st') \<Longrightarrow> snd st' = snd st @ [c]"
  by (auto simp: invoke_def split: prod.splits)

lemma invoke_exec:
  "invoke client c st = (r, st') \<Longrightarrow> exec client c (fst st) = (r, fst st')"
  by (auto simp: invoke_def split: prod.splits)

lemma call_each_prefix:
  "call_each client msg cs st = (r, st') \<Longrightarrow> \<exists>n. snd st' = snd st @ take n cs"
proof (induction cs arbitrary: st)
  case Nil
  then show ?case by simp
next
  case (Cons c cs)
  obtain r1 st1 where i: "invoke client c st = (r1, st1)" by (cases "invoke client c st")
  show ?case
  proof (cases r1)
    case None
    with Cons.prems i have "call_each client msg cs st1 = (r, st')" by simp
    from Cons.IH[OF this] obtain n where "snd st' = snd st1 @ take n cs" ..
    with invoke_calls[OF i] have "snd st' = snd st @ take (Suc n) (c # cs)" by simp
    then show ?thesis ..
  next
    case (Some e)
    with Cons.prems i have "st' = st1" by simp
    with invoke_calls[OF i] have "snd st' = snd st @ take 1 (c # cs)" by simp
    then show ?thesis ..
  qed
qed

lemma call_each_None:
  "call_each client msg cs st = (None, st') \<Longrightarrow> snd st' = snd st @ cs"
proof (induction cs arbitrary: st)
  case Nil
  then show ?case by simp
next
  case (Cons c cs)
  obtain r1 st1 where i: "invoke client c st = (r1, st1)" by (cases "invoke client c st")
  with Cons.prems have r1: "r1 = None" and rest: "call_each client msg cs st1 = (None, st')"
    by (auto split: option.splits)
  from Cons.IH[OF rest] invoke_calls[OF i] show ?case by simp
qed

lemma call_each_Some:
  "call_each client msg cs st = (Some err, st') \<Longrightarrow>
   \<exists>e c pre post w. err = Wrap e msg \<and> cs = pre @ c # post \<and>
      snd st' = snd st @ pre @ [c] \<and> exec client c w = (Some e, fst st')"
proof (induction cs arbitrary: st)
  case Nil
  then show ?case by simp
next
  case (Cons c cs)
  obtain r1 st1 where i: "invoke client c st = (r1, st1)" by (cases "invoke client c st")
  show ?case
  proof (cases r1)
    case None
    with Cons.prems i have "call_each client msg cs st1 = (Some err, st')" by simp
    from Cons.IH[OF this] obtain e c' pre post w where
      "err = Wrap e msg" "cs = pre @ c' # post" "snd st' = snd st1 @ pre @ [c']"
      "exec client c' w = (Some e, fst st')" by blast
    with invoke_calls[OF i] have
      "err = Wrap e msg \<and> c # cs = (c # pre) @ c' # post \<and>
       snd st' = snd st @ (c # pre) @ [c'] \<and> exec client c' w = (Some e, fst st')" by simp
    then show ?thesis by blast
  next
    case (Some e)
    with Cons.prems i have "st' = st1" "err = Wrap e msg" by simp_all
    with invoke_calls[OF i] invoke_exec[OF i] Some have
      "err = Wrap e msg \<and> c # cs = [] @ c # cs \<and>
       snd st' = snd st @ [] @ [c] \<and> exec client c (fst st) = (Some e, fst st')" by simp
    then show ?thesis by blast
  qed
qed

lemma within_Nil: "within lo hi []"
  by (simp add: within_def)

lemma within_single: "lo \<le> phase c \<Longrightarrow> phase c \<le> hi \<Longrightarrow> within lo hi [c]"
  by (simp add: within_def)

lemma within_append:
  "within lo hi xs \<Longrightarrow> within lo' hi' ys \<Longrightarrow> hi \<le> lo' \<Longrightarrow> lo \<le> lo' \<Longrightarrow> hi \<le> hi' \<Longrightarrow>
   within lo hi' (xs @ ys)"
  by (fastforce simp: within_def sorted_append)

lemma within_mono:
  "within lo hi cs \<Longrightarrow> lo' \<le> lo \<Longrightarrow> hi \<le> hi' \<Longrightarrow> within lo' hi' cs"
  by (fastforce simp: within_def)

lemma within_const: "(\<And>c. c \<in> set cs \<Longrightarrow> phase c = p) \<Longrightarrow> within p p cs"
  by (induction cs) (auto simp: within_def)

lemma within_take: "within lo hi cs \<Longrightarrow> within lo hi (take n cs)"
  by (auto simp: within_def take_map[symmetric] sorted_wrt_take dest: in_set_takeD)

lemma extends_refl: "extends lo hi st st"
  by (simp add: extends_def within_Nil)

lemma extends_trans:
  "extends lo hi st st1 \<Longrightarrow> extends lo' hi' st1 st2 \<Longrightarrow> hi \<le> lo' \<Longrightarrow> lo \<le> lo' \<Longrightarrow> hi \<le> hi' \<Longrightarrow>
   extends lo hi' st st2"
  unfolding extends_def
  by (metis append.assoc within_append)

lemma extends_mono:
  "extends lo hi st st' \<Longrightarrow> lo' \<le> lo \<Longrightarrow> hi \<le> hi' \<Longrightarrow> extends lo' hi' st st'"
  unfolding extends_def by (metis within_mono)

lemma invoke_extends:
  "invoke client c st = (r, st') \<Longrightarrow> extends (phase c) (phase c) st st'"
  unfolding extends_def using invoke_calls within_single by (metis order_refl)

lemma call_each_extends:
  assumes "call_each client msg cs st = (r, st')" and "\<And>c. c \<in> set cs \<Longrightarrow> phase c = p"
  shows "extends p p st st'"
proof -
  from call_each_prefix[OF assms(1)] obtain n where "snd st' = snd st @ take n cs" ..
  moreover have "within p p (take n cs)"
    using assms(2) by (intro within_take within_const)
  ultimately show ?thesis unfolding extends_def by blast
qed

lemma updateRepoSettings_extends:
  "updateRepoSettings client owner name githubRepo repo st = (r, st') \<Longrightarrow> extends 0 0 st st'"
  unfolding updateRepoSettings_def
  by (auto split: if_splits prod.splits option.splits
           intro: extends_refl dest!: invoke_extends)

lemma updateTopicsSettings_extends:
  "updateTopicsSettings client owner name githubTopics topics st = (r, st') \<Longrightarrow>
   extends 10 10 st st'"
  unfolding updateTopicsSettings_def
  by (auto simp: Let_def split: if_splits prod.splits option.splits
           intro: extends_refl dest!: invoke_extends)

lemma updateLabels_extends:
  assumes "updateLabels client owner name githubLabels labelsSettings st = (r, st')"
  shows "extends 1 3 st st'"
proof -
  obtain cs us m where l: "labels_loop labelsSettings ([], [], label_map githubLabels) = (cs, us, m)"
    by (metis prod_cases3)
  let ?dels = "map (\<lambda>(labelName, _). Issues_DeleteLabel owner name labelName)
                 (range_map client ''deleteLabelMap'' m)"
  let ?creates = "map (\<lambda>newLabel. Issues_CreateLabel owner name (github_Label_of newLabel)) cs"
  let ?edits = "map (\<lambda>updateLabel. Issues_EditLabel owner name (label.Name updateLabel)
                      (github_Label_of updateLabel)) us"
  obtain r1 st1 where d: "call_each client ''Error deleting a label\<newline>'' ?dels st = (r1, st1)"
    by (metis surj_pair)
  have e1: "extends 1 1 st st1" by (rule call_each_extends[OF d]) auto
  show ?thesis
  proof (cases r1)
    case (Some e)
    with assms l d have "st' = st1" by (simp add: updateLabels_def)
    with e1 show ?thesis by (auto intro: extends_mono)
  next
    case None
    obtain r2 st2 where c: "call_each client ''Error creating a label\<newline>'' ?creates st1 = (r2, st2)"
      by (metis surj_pair)
    have e2: "extends 2 2 st1 st2" by (rule call_each_extends[OF c]) auto
    have e12: "extends 1 2 st st2" by (rule extends_trans[OF e1 e2]) simp_all
    show ?thesis
    proof (cases r2)
      case (Some e)
      with assms l d c None have "st' = st2" by (simp add: updateLabels_def)
      with e12 show ?thesis by (auto intro: extends_mono)
    next
      case None2: None
      with assms l d c None have
        u: "call_each client ''Error updating a label\<newline>'' ?edits st2 = (r, st')"
        by (simp add: updateLabels_def)
      have e3: "extends 3 3 st2 st'" by (rule call_each_extends[OF u]) auto
      show ?thesis by (rule extends_trans[OF e12 e3]) simp_all
    qed
  qed
qed

lemma createBranch_loop_extends:
  "createBranch_loop client headRef branches st = (r, st') \<Longrightarrow> extends 4 4 st st'"
proof (induction branches arbitrary: st)
  case Nil
  then show ?case by (simp add: extends_refl)
next
  case (Cons b branches)
  obtain r1 st1 where i1:
    "invoke client (git_SetReference (''refs/heads/'' @ b) headRef) st = (r1, st1)"
    by (metis surj_pair)
  from invoke_extends[OF i1] have e1: "extends 4 4 st st1" by simp
  show ?case
  proof (cases r1)
    case (Some e)
    with Cons.prems i1 have "st' = st1" by simp
    with e1 show ?thesis by simp
  next
    case None
    obtain r2 st2 where i2: "invoke client git_Push st1 = (r2, st2)" by (metis surj_pair)
    from invoke_extends[OF i2] have e2: "extends 4 4 st1 st2" by simp
    have e12: "extends 4 4 st st2" by (rule extends_trans[OF e1 e2]) simp_all
    show ?thesis
    proof (cases r2)
      case (Some e)
      with Cons.prems i1 i2 None have "st' = st2" by simp
      with e12 show ?thesis by simp
    next
      case None2: None
      with Cons.prems i1 i2 None have "createBranch_loop client headRef branches st2 = (r, st')"
        by simp
      from Cons.IH[OF this] have "extends 4 4 st2 st'" .
      then show ?thesis by (rule extends_trans[OF e12]) simp_all
    qed
  qed
qed

lemma log_extends: "extends (phase c) (phase c) st (fst st, snd st @ [c])"
  unfolding extends_def using within_single by (metis order_refl snd_conv)

lemma createBranch_extends:
  assumes "createBranch client branches url st = (r, st')"
  shows "extends 4 4 st st'"
proof -
  obtain r1 st1 where i1: "invoke client (git_Clone url) st = (r1, st1)" by (metis surj_pair)
  from invoke_extends[OF i1] have e1: "extends 4 4 st st1" by simp
  have e2: "extends 4 4 st1 (fst st1, snd st1 @ [git_Head])"
    using log_extends[of git_Head st1] by simp
  have e12: "extends 4 4 st (fst st1, snd st1 @ [git_Head])"
    by (rule extends_trans[OF e1 e2]) simp_all
  show ?thesis
  proof (cases r1)
    case (Some e)
    with assms i1 have "st' = st1" by (simp add: createBranch_def)
    with e1 show ?thesis by simp
  next
    case None
    show ?thesis
    proof (cases "repo_Head client (fst st1)")
      case (Inl e)
      with assms i1 None have "st' = (fst st1, snd st1 @ [git_Head])"
        by (simp add: createBranch_def)
      with e12 show ?thesis by simp
    next
      case (Inr headRef)
      with assms i1 None have
        "createBranch_loop client headRef branches (fst st1, snd st1 @ [git_Head]) = (r, st')"
        by (simp add: createBranch_def)
      from createBranch_loop_extends[OF this] show ?thesis
        by (rule extends_trans[OF e12]) simp_all
    qed
  qed
qed

lemma branches_loop_extends:
  "branches_loop client owner name branchesSettings vars st = (r, st') \<Longrightarrow> extends 4 4 st st'"
proof (induction branchesSettings arbitrary: vars st)
  case Nil
  then show ?case by (simp add: extends_refl)
next
  case (Cons b rest)
  obtain us m where vars: "vars = (us, m)" by (cases vars)
  show ?case
  proof (cases "map_of m (branch.Name b)")
    case (Some g)
    with Cons.prems vars show ?thesis by (auto dest: Cons.IH)
  next
    case None
    obtain r1 st1 where c:
      "createBranch client [branch.Name b] (fmtGithubURL owner name (token client)) st = (r1, st1)"
      by (metis surj_pair)
    from createBranch_extends[OF c] have e1: "extends 4 4 st st1" .
    show ?thesis
    proof (cases r1)
      case (Some e)
      with Cons.prems vars None c have "st' = st1" by simp
      with e1 show ?thesis by simp
    next
      case None2: None
      with Cons.prems vars None c have
        "branches_loop client owner name rest (us @ [b], m) st1 = (r, st')" by simp
      from Cons.IH[OF this] show ?thesis by (rule extends_trans[OF e1]) simp_all
    qed
  qed
qed

lemma updateBranchSettings_extends:
  assumes "updateBranchSettings client owner name githubBranches branchesSettings st = (r, st')"
  shows "extends 4 6 st st'"
proof -
  obtain r0 st0 where l:
    "branches_loop client owner name branchesSettings ([], branch_map githubBranches) st = (r0, st0)"
    by (metis surj_pair)
  from branches_loop_extends[OF l] have e0: "extends 4 4 st st0" .
  show ?thesis
  proof (cases r0)
    case (Inl e)
    with assms l have "st' = st0" by (simp add: updateBranchSettings_def)
    with e0 show ?thesis by (auto intro: extends_mono)
  next
    case (Inr vars)
    obtain us m where vars: "vars = (us, m)" by (cases vars)
    let ?dels = "map (\<lambda>(branchToDelete, _).
                     Repositories_RemoveBranchProtection owner name branchToDelete)
                (range_map client ''deleteBranchesMap'' m)"
    let ?ups = "map (\<lambda>branchSettings.
                    Repositories_UpdateBranchProtection owner name (branch.Name branchSettings)
                      (protection_request branchSettings)) us"
    obtain r1 st1 where d:
      "call_each client ''Error removing branch protection\<newline>'' ?dels st0 = (r1, st1)"
      by (metis surj_pair)
    have e1: "extends 5 5 st0 st1" by (rule call_each_extends[OF d]) auto
    have e01: "extends 4 5 st st1" by (rule extends_trans[OF e0 e1]) simp_all
    show ?thesis
    proof (cases r1)
      case (Some e)
      with assms l Inr vars d have "st' = st1" by (simp add: updateBranchSettings_def)
      with e01 show ?thesis by (auto intro: extends_mono)
    next
      case None
      with assms l Inr vars d have
        u: "call_each client ''Error updating branch protection\<newline>'' ?ups st1 = (r, st')"
        by (simp add: updateBranchSettings_def)
      have e2: "extends 6 6 st1 st'" by (rule call_each_extends[OF u]) auto
      show ?thesis by (rule extends_trans[OF e01 e2]) simp_all
    qed
  qed
qed

lemma webhooks_loop_extends:
  "webhooks_loop client owner name webhooksSettings vars st = (r, st') \<Longrightarrow> extends 7 7 st st'"
proof (induction webhooksSettings arbitrary: vars st)
  case Nil
  then show ?case by (simp add: extends_refl)
next
  case (Cons d rest)
  obtain us m where vars: "vars = (us, m)" by (cases vars)
  show ?case
  proof (cases "map_of m (URL d)")
    case (Some g)
    with Cons.prems vars show ?thesis by (auto simp: Let_def dest: Cons.IH)
  next
    case None
    obtain r1 st1 where c:
      "invoke client (Repositories_CreateHook owner name (github_Hook_of d)) st = (r1, st1)"
      by (metis surj_pair)
    from invoke_extends[OF c] have e1: "extends 7 7 st st1" by simp
    show ?thesis
    proof (cases r1)
      case (Some e)
      with Cons.prems vars None c have "st' = st1" by simp
      with e1 show ?thesis by simp
    next
      case None2: None
      with Cons.prems vars None c have
        "webhooks_loop client owner name rest (us, m) st1 = (r, st')" by simp
      from Cons.IH[OF this] show ?thesis by (rule extends_trans[OF e1]) simp_all
    qed
  qed
qed

lemma updateWebhooks_extends:
  assumes "updateWebhooks client owner name githubWebhooks webhooksSettings st = (r, st')"
  shows "extends 7 9 st st'"
proof -
  obtain r0 st0 where l:
    "webhooks_loop client owner name webhooksSettings ([], webhook_map githubWebhooks) st = (r0, st0)"
    by (metis surj_pair)
  from webhooks_loop_extends[OF l] have e0: "extends 7 7 st st0" .
  show ?thesis
  proof (cases r0)
    case (Inl e)
    with assms l have "st' = st0" by (simp add: updateWebhooks_def)
    with e0 show ?thesis by (auto intro: extends_mono)
  next
    case (Inr vars)
    obtain us m where vars: "vars = (us, m)" by (cases vars)
    let ?dels = "map (\<lambda>(_, webhookToDelete).
                     Repositories_DeleteHook owner name (ID webhookToDelete))
                (range_map client ''deleteWebhooksMap'' m)"
    let ?ups = "map (\<lambda>webhookToUpdate.
                    Repositories_EditHook owner name (ID webhookToUpdate)
                      (github_Hook_of webhookToUpdate)) us"
    obtain r1 st1 where d:
      "call_each client ''Error removing webhook\<newline>'' ?dels st0 = (r1, st1)"
      by (metis surj_pair)
    have e1: "extends 8 8 st0 st1" by (rule call_each_extends[OF d]) auto
    have e01: "extends 7 8 st st1" by (rule extends_trans[OF e0 e1]) simp_all
    show ?thesis
    proof (cases r1)
      case (Some e)
      with assms l Inr vars d have "st' = st1" by (simp add: updateWebhooks_def)
      with e01 show ?thesis by (auto intro: extends_mono)
    next
      case None
      with assms l Inr vars d have
        u: "call_each client ''Error updating webhook\<newline>'' ?ups st1 = (r, st')"
        by (simp add: updateWebhooks_def)
      have e2: "extends 9 9 st1 st'" by (rule call_each_extends[OF u]) auto
      show ?thesis by (rule extends_trans[OF e01 e2]) simp_all
    qed
  qed
qed

lemma Apply_extends:
  assumes "Apply client settings st = (r, st')"
  shows "extends 0 10 st st'"
proof -
  let ?owner = "Owner (Repository settings)"
  let ?name = "repository.Name (Repository settings)"
  show ?thesis
  proof (cases "GetSettingsFromGithub client (fst st) ?owner ?name")
    case (Panic p)
    with assms have "st' = st" by (simp add: Apply_def)
    then show ?thesis by (simp add: extends_refl)
  next
    case (Err e)
    with assms have "st' = st" by (simp add: Apply_def)
    then show ?thesis by (simp add: extends_refl)
  next
    case (Ok g)
    obtain r1 st1 where a1:
      "updateRepoSettings client ?owner ?name (Repository g) (Repository settings) st = (r1, st1)"
      by (metis surj_pair)
    obtain r2 st2 where a2:
      "updateLabels client ?owner ?name (Labels g) (Labels settings) st1 = (r2, st2)"
      by (metis surj_pair)
    obtain r3 st3 where a3:
      "updateBranchSettings client ?owner ?name (Branches g) (Branches settings) st2 = (r3, st3)"
      by (metis surj_pair)
    obtain r4 st4 where a4:
      "updateWebhooks client ?owner ?name (Webhooks g) (Webhooks settings) st3 = (r4, st4)"
      by (metis surj_pair)
    obtain r5 st5 where a5:
      "updateTopicsSettings client ?owner ?name (Topics g) (Topics settings) st4 = (r5, st5)"
      by (metis surj_pair)
    have e1: "extends 0 0 st st1" by (rule updateRepoSettings_extends[OF a1])
    have e2: "extends 0 3 st st2"
      by (rule extends_trans[OF e1 updateLabels_extends[OF a2]]) simp_all
    have e3: "extends 0 6 st st3"
      by (rule extends_trans[OF e2 updateBranchSettings_extends[OF a3]]) simp_all
    have e4: "extends 0 9 st st4"
      by (rule extends_trans[OF e3 updateWebhooks_extends[OF a4]]) simp_all
    have e5: "extends 0 10 st st5"
      by (rule extends_trans[OF e4 updateTopicsSettings_extends[OF a5]]) simp_all
    from assms Ok a1 a2 a3 a4 a5 have "st' \<in> {st1, st2, st3, st4, st5}"
      by (auto simp: Apply_def Let_def split: option.splits)
    with e1 e2 e3 e4 e5 show ?thesis by (auto intro: extends_mono)
  qed
qed

text \<open>
  C3, as the code has it. The calls of a run of Apply are ordered by \<open>phase\<close>: the
  resource kinds are reconciled in the order repository attributes, labels, branches,
  webhooks, topics; webhooks and branches go create, delete, update; labels go delete,
  create, update. A run that fails stops inside this order.
\<close>

theorem Apply_call_order:
  "sorted (map phase (calls_of st (snd (Apply client settings st))))"
proof -
  obtain r st' where a: "Apply client settings st = (r, st')" by (metis surj_pair)
  from Apply_extends[OF a] show ?thesis
    by (auto simp: a extends_def within_def calls_of_def)
qed

lemma relabel_run:
  "Apply hosted relabel_settings (relabel_remote, []) =
     (Ok (),
      relabel_remote\<lparr>hosted_labels := [github_Label_of feature_label]\<rparr>,
      [Issues_DeleteLabel ''owner'' ''repo'' ''bug'',
       Issues_CreateLabel ''owner'' ''repo'' (github_Label_of feature_label)])"
  by code_simp

text \<open>
  C3 fails as stated: the remote has the label \<open>bug\<close>, the desired settings have the
  label \<open>feature\<close>. The run deletes \<open>bug\<close> before it creates \<open>feature\<close>, so its calls
  are not in the order create, delete, update.
\<close>

theorem label_order_counterexample:
  "\<not> sorted (map spec_phase (calls_of (relabel_remote, [])
        (snd (Apply hosted relabel_settings (relabel_remote, [])))))"
  by (simp add: relabel_run calls_of_def)

section \<open>The pages flag\<close>

lemma read_ok_repository:
  assumes "GetSettingsFromGithub client w owner name = Ok githubSettings"
  shows "\<exists>githubRepo. Repositories_Get client w owner name = Inr githubRepo \<and>
     Repository githubSettings =
       \<lparr>repository.Name = GetString (Repo_Name githubRepo),
        Owner = GetLogin (Repo_Owner githubRepo),
        Description = GetString (Repo_Description githubRepo),
        Homepage = GetString (Repo_Homepage githubRepo),
        DefaultBranch = GetString (Repo_DefaultBranch githubRepo),
        Private = GetBool (Repo_Private githubRepo),
        HasIssues = GetBool (Repo_HasIssues githubRepo),
        HasProjects = GetBool (Repo_HasProjects githubRepo),
        HasPages = False,
        HasWiki = GetBool (Repo_HasWiki githubRepo),
        HasDownloads = GetBool (Repo_HasDownloads githubRepo),
        IsTemplate = GetBool (Repo_IsTemplate githubRepo),
        Archived = GetBool (Repo_Archived githubRepo),
        AllowSquashMerge = GetBool (Repo_AllowSquashMerge githubRepo),
        AllowMergeCommit = GetBool (Repo_AllowMergeCommit githubRepo),
        AllowRebaseMerge = GetBool (Repo_AllowRebaseMerge githubRepo)\<rparr>"
  using assms unfolding GetSettingsFromGithub_def
  by (auto simp: Let_def split: sum.splits result.splits)

lemma updateRepoSettings_differ:
  "githubRepo \<noteq> repo \<Longrightarrow>
   calls_of st (snd (updateRepoSettings client owner name githubRepo repo st)) =
     [Repositories_Edit owner name (github_Repository_of repo)]"
  by (auto simp: updateRepoSettings_def calls_of_def invoke_def split: prod.splits option.splits)

text \<open>
  C4. Whatever the remote repository reports, the snapshot that GetSettingsFromGithub
  returns has \<open>HasPages = false\<close>. Desired attributes with pages enabled therefore never
  equal the snapshot, and updateRepoSettings issues its edit call with them.
\<close>

theorem GetSettingsFromGithub_HasPages:
  assumes "GetSettingsFromGithub client w owner name = Ok githubSettings"
  shows "\<not> HasPages (Repository githubSettings) \<and>
         (HasPages repo \<longrightarrow>
            Repository githubSettings \<noteq> repo \<and>
            calls_of st (snd (updateRepoSettings client owner' name' (Repository githubSettings) repo st)) =
              [Repositories_Edit owner' name' (github_Repository_of repo)])"
proof -
  from read_ok_repository[OF assms] have no_pages: "\<not> HasPages (Repository githubSettings)"
    by auto
  then have "Repository githubSettings \<noteq> repo" if "HasPages repo"
    using that by auto
  with no_pages show ?thesis
    by (auto simp: updateRepoSettings_differ)
qed

lemma example_read:
  "GetSettingsFromGithub hosted example_remote ''owner'' ''repo'' =
     Ok \<lparr>Repository = example_repository, Labels = [], Branches = [], Webhooks = [],
         Topics = Some []\<rparr>"
  by code_simp

text \<open>
  An instance: the example remote reports pages as enabled; the snapshot has them
  disabled, and attributes with pages enabled lead to the edit call.
\<close>

theorem GetSettingsFromGithub_HasPages_witness:
  "GetSettingsFromGithub hosted example_remote ''owner'' ''repo'' =
     Ok \<lparr>Repository = example_repository, Labels = [], Branches = [], Webhooks = [],
         Topics = Some []\<rparr> \<and>
   Repo_HasPages (hosted_repo example_remote) = Some True \<and>
   \<not> HasPages example_repository \<and>
   HasPages (Repository pages_settings) \<and>
   example_repository \<noteq> Repository pages_settings \<and>
   calls_of (example_remote, [])
     (snd (updateRepoSettings hosted ''owner'' ''repo'' example_repository
             (Repository pages_settings) (example_remote, []))) =
     [Repositories_Edit ''owner'' ''repo'' (github_Repository_of (Repository pages_settings))]"
proof -
  note w = GetSettingsFromGithub_HasPages[OF example_read,
          of "Repository pages_settings" "(example_remote, [])" "''owner''" "''repo''"]
  have p: "HasPages (Repository pages_settings)"
    by (simp add: pages_settings_def)
  have r: "Repo_HasPages (hosted_repo example_remote) = Some True"
    by (simp add: example_remote_def example_hosted_repo_def)
  from w p r example_read show ?thesis by simp
qed

text \<open>
  With pages enabled in the desired settings, every run whose read succeeds starts with
  the edit call, on any remote and in any state of it.
\<close>

lemma Apply_after_repo:
  assumes read: "GetSettingsFromGithub client (fst st) (Owner (Repository settings))
                   (repository.Name (Repository settings)) = Ok githubSettings"
      and repo: "updateRepoSettings client (Owner (Repository settings))
                   (repository.Name (Repository settings))
                   (Repository githubSettings) (Repository settings) st = (r1, st1)"
  shows "\<exists>ext. snd (snd (Apply client settings st)) = snd st1 @ ext"
proof -
  let ?owner = "Owner (Repository settings)"
  let ?name = "repository.Name (Repository settings)"
  let ?g = githubSettings
  obtain r2 st2 where a2:
    "updateLabels client ?owner ?name (Labels ?g) (Labels settings) st1 = (r2, st2)"
    by (metis surj_pair)
  obtain r3 st3 where a3:
    "updateBranchSettings client ?owner ?name (Branches ?g) (Branches settings) st2 = (r3, st3)"
    by (metis surj_pair)
  obtain r4 st4 where a4:
    "updateWebhooks client ?owner ?name (Webhooks ?g) (Webhooks settings) st3 = (r4, st4)"
    by (metis surj_pair)
  obtain r5 st5 where a5:
    "updateTopicsSettings client ?owner ?name (Topics ?g) (Topics settings) st4 = (r5, st5)"
    by (metis surj_pair)
  from updateLabels_extends[OF a2] obtain x2 where t2: "snd st2 = snd st1 @ x2"
    unfolding extends_def by blast
  from updateBranchSettings_extends[OF a3] obtain x3 where t3: "snd st3 = snd st2 @ x3"
    unfolding extends_def by blast
  from updateWebhooks_extends[OF a4] obtain x4 where t4: "snd st4 = snd st3 @ x4"
    unfolding extends_def by blast
  from updateTopicsSettings_extends[OF a5] obtain x5 where t5: "snd st5 = snd st4 @ x5"
    unfolding extends_def by blast
  have "snd (Apply client settings st) \<in> {st1, st2, st3, st4, st5}"
    by (auto simp: Apply_def Let_def read repo a2 a3 a4 a5 split: option.splits)
  with t2 t3 t4 t5 show ?thesis by auto
qed

lemma pages_enabled_always_edits:
  assumes read: "GetSettingsFromGithub client (fst st) (Owner (Repository settings))
                   (repository.Name (Repository settings)) = Ok githubSettings"
      and pages: "HasPages (Repository settings)"
  shows "\<exists>rest. calls_of st (snd (Apply client settings st)) =
           Repositories_Edit (Owner (Repository settings)) (repository.Name (Repository settings))
             (github_Repository_of (Repository settings)) # rest"
proof -
  let ?owner = "Owner (Repository settings)"
  let ?name = "repository.Name (Repository settings)"
  obtain r1 st1 where repo:
    "updateRepoSettings client ?owner ?name (Repository githubSettings) (Repository settings) st =
       (r1, st1)" by (metis surj_pair)
  from read_ok_repository[OF read] pages have "Repository githubSettings \<noteq> Repository settings"
    by auto
  from updateRepoSettings_differ[OF this, of st client ?owner ?name] repo
  have c1: "calls_of st st1 = [Repositories_Edit ?owner ?name (github_Repository_of (Repository settings))]"
    by simp
  from updateRepoSettings_extends[OF repo] obtain x1 where t1: "snd st1 = snd st @ x1"
    unfolding extends_def by blast
  from Apply_after_repo[OF read repo] obtain ext where
    "snd (snd (Apply client settings st)) = snd st1 @ ext" ..
  with t1 c1 have "calls_of st (snd (Apply client settings st)) =
      Repositories_Edit ?owner ?name (github_Repository_of (Repository settings)) # ext"
    by (simp add: calls_of_def)
  then show ?thesis ..
qed

text \<open>
  C1 fails on the code. The desired settings enable pages and otherwise agree with the
  example remote, which already has pages enabled. The first run succeeds and leaves the
  remote as it was; the second run, on the state the first one left, issues the same
  edit call again.
\<close>

theorem second_run_edits_again:
  "Apply hosted pages_settings (example_remote, []) =
     (Ok (), example_remote,
      [Repositories_Edit ''owner'' ''repo'' (github_Repository_of (Repository pages_settings))]) \<and>
   Apply hosted pages_settings (fst (snd (Apply hosted pages_settings (example_remote, []))), []) =
     (Ok (), example_remote,
      [Repositories_Edit ''owner'' ''repo'' (github_Repository_of (Repository pages_settings))])"
proof -
  have first: "Apply hosted pages_settings (example_remote, []) =
     (Ok (), example_remote,
      [Repositories_Edit ''owner'' ''repo'' (github_Repository_of (Repository pages_settings))])"
    by code_simp
  then show ?thesis by simp
qed

section \<open>Topics\<close>

text \<open>
  The calls of updateTopicsSettings: none when the two sorted slices are deeply equal,
  otherwise one call that replaces the topics by the sorted desired slice.
\<close>

lemma updateTopicsSettings_calls:
  "calls_of st (snd (updateTopicsSettings client owner name githubTopics topics st)) =
     (if sort_Strings githubTopics = sort_Strings topics then []
      else [Repositories_ReplaceAllTopics owner name (sort_Strings topics)])"
  by (auto simp: updateTopicsSettings_def calls_of_def invoke_def Let_def
           split: prod.splits option.splits)

text \<open>
  C7 fails on the code. The remote reports an empty, non-nil list of topics and the
  desired settings have no topics at all (the nil slice). Sorting changes neither; the
  two lists have the same elements, none, and yet the reconciler issues a replace call.
\<close>

theorem topics_nil_and_empty_differ:
  "elements (sort_Strings (Some [])) = elements (sort_Strings None) \<and>
   updateTopicsSettings hosted ''owner'' ''repo'' (Some []) None (example_remote, []) =
     (None, example_remote, [Repositories_ReplaceAllTopics ''owner'' ''repo'' None])"
  by code_simp

section \<open>Failure of a label write\<close>

lemma call_each_run: "call_each client msg cs st = run_calls client (map (\<lambda>c. (c, msg)) cs) st"
  by (induction cs arbitrary: st) (auto split: prod.splits option.splits)

lemma run_calls_append:
  "run_calls client (xs @ ys) st =
     (case run_calls client xs st of
        (Some err, st') \<Rightarrow> (Some err, st')
      | (None, st') \<Rightarrow> run_calls client ys st')"
  by (induction xs arbitrary: st) (auto split: prod.splits option.splits)

lemma updateLabels_run:
  "updateLabels client owner name githubLabels labelsSettings st =
   run_calls client (updateLabels_calls client owner name githubLabels labelsSettings) st"
  unfolding updateLabels_def updateLabels_calls_def
  by (auto simp: call_each_run run_calls_append comp_def case_prod_unfold
           split: prod.splits option.splits)

lemma run_calls_None: "run_calls client cs st = (None, st') \<Longrightarrow> snd st' = snd st @ map fst cs"
proof (induction cs arbitrary: st)
  case Nil
  then show ?case by simp
next
  case (Cons x cs)
  obtain c msg where x: "x = (c, msg)" by (cases x)
  obtain r1 st1 where i: "invoke client c st = (r1, st1)" by (metis surj_pair)
  with Cons.prems x have "r1 = None" and rest: "run_calls client cs st1 = (None, st')"
    by (auto split: option.splits)
  from Cons.IH[OF rest] invoke_calls[OF i] x show ?case by simp
qed

lemma run_calls_first_failure:
  assumes "run_calls client pre st = (None, st1)"
      and "exec client c (fst st1) = (Some e, w')"
  shows "run_calls client (pre @ (c, msg) # post) st = (Some (Wrap e msg), (w', snd st1 @ [c]))"
  using assms by (simp add: run_calls_append invoke_def)

lemma updateLabels_calls_phase:
  "(c, msg) \<in> set (updateLabels_calls client owner name githubLabels labelsSettings) \<Longrightarrow>
   phase c \<in> {1, 2, 3}"
  by (auto simp: updateLabels_calls_def split: prod.splits)

text \<open>
  C10. The read succeeds and the repository attributes are reconciled without error. The
  label reconciler issues the calls \<open>pre\<close>, which succeed, and then the call \<open>c\<close>, a
  delete, create or update of a label, which returns the error \<open>e\<close>. Then Apply returns
  \<open>e\<close>, wrapped by the label reconciler and again by Apply, and \<open>c\<close> is the last call of
  the run: every call of the run is the repository edit or a label call, none belongs to
  the branch, webhook or topic reconciler.
\<close>

theorem Apply_label_write_failure:
  assumes read: "GetSettingsFromGithub client (fst st) (Owner (Repository settings))
                   (repository.Name (Repository settings)) = Ok githubSettings"
      and repo: "updateRepoSettings client (Owner (Repository settings))
                   (repository.Name (Repository settings))
                   (Repository githubSettings) (Repository settings) st = (None, st1)"
      and calls: "updateLabels_calls client (Owner (Repository settings))
                   (repository.Name (Repository settings))
                   (Labels githubSettings) (Labels settings) = pre @ (c, msg) # post"
      and before: "run_calls client pre st1 = (None, st2)"
      and fails: "exec client c (fst st2) = (Some e, w')"
  shows "Apply client settings st =
           (Err (Wrap (Wrap e msg) ''Error updating repository labels''), (w', snd st2 @ [c])) \<and>
         list_all (\<lambda>c. phase c \<le> 3) (calls_of st (w', snd st2 @ [c]))"
proof -
  let ?owner = "Owner (Repository settings)"
  let ?name = "repository.Name (Repository settings)"
  have labels: "updateLabels client ?owner ?name (Labels githubSettings) (Labels settings) st1 =
                  (Some (Wrap e msg), (w', snd st2 @ [c]))"
    by (simp add: updateLabels_run calls run_calls_first_failure[OF before fails])
  have result: "Apply client settings st =
           (Err (Wrap (Wrap e msg) ''Error updating repository labels''), (w', snd st2 @ [c]))"
    by (simp add: Apply_def Let_def read repo labels)
  from updateRepoSettings_extends[OF repo] obtain ext1 where
    e1: "snd st1 = snd st @ ext1" and w1: "within 0 0 ext1"
    unfolding extends_def by blast
  from run_calls_None[OF before] have e2: "snd st2 = snd st1 @ map fst pre" .
  have p: "phase c' \<le> 3" if "c' \<in> set (map fst pre @ [c])" for c'
  proof -
    from that have "\<exists>m. (c', m) \<in> set (pre @ (c, msg) # post)" by fastforce
    then obtain m where "(c', m) \<in> set (pre @ (c, msg) # post)" ..
    then have "(c', m) \<in> set (updateLabels_calls client ?owner ?name
                   (Labels githubSettings) (Labels settings))"
      by (simp only: calls)
    from updateLabels_calls_phase[OF this] show ?thesis by auto
  qed
  have "calls_of st (w', snd st2 @ [c]) = ext1 @ map fst pre @ [c]"
    by (simp add: calls_of_def e1 e2)
  moreover have "list_all (\<lambda>c. phase c \<le> 3) (ext1 @ map fst pre @ [c])"
    using w1 p by (auto simp: list_all_iff within_def)
  ultimately show ?thesis using result by simp
qed

text \<open>
  An instance: the remote has the label \<open>bug\<close>, the desired settings the label
  \<open>feature\<close>, and the remote rejects the creation of labels.
\<close>

theorem Apply_label_write_failure_witness:
  "GetSettingsFromGithub (rejecting (\<lambda>c. phase c = 2)) relabel_remote ''owner'' ''repo'' =
     Ok relabel_snapshot \<and>
   updateRepoSettings (rejecting (\<lambda>c. phase c = 2)) ''owner'' ''repo''
     (Repository relabel_snapshot) (Repository relabel_settings) (relabel_remote, []) =
     (None, (relabel_remote, [])) \<and>
   updateLabels_calls (rejecting (\<lambda>c. phase c = 2)) ''owner'' ''repo''
     (Labels relabel_snapshot) (Labels relabel_settings) =
     [(Issues_DeleteLabel ''owner'' ''repo'' ''bug'', ''Error deleting a label\<newline>'')] @
     (Issues_CreateLabel ''owner'' ''repo'' (github_Label_of feature_label),
      ''Error creating a label\<newline>'') # [] \<and>
   exec (rejecting (\<lambda>c. phase c = 2))
     (Issues_CreateLabel ''owner'' ''repo'' (github_Label_of feature_label)) no_bug_remote =
     (Some (Error ''rejected''), no_bug_remote) \<and>
   Apply (rejecting (\<lambda>c. phase c = 2)) relabel_settings (relabel_remote, []) =
     (Err (Wrap (Wrap (Error ''rejected'') ''Error creating a label\<newline>'')
             ''Error updating repository labels''),
      (no_bug_remote,
       [Issues_DeleteLabel ''owner'' ''repo'' ''bug'',
        Issues_CreateLabel ''owner'' ''repo'' (github_Label_of feature_label)]))"
proof -
  let ?client = "rejecting (\<lambda>c. phase c = 2)"
  let ?st = "(relabel_remote, []) :: remote state"
  let ?st2 = "(no_bug_remote, [Issues_DeleteLabel ''owner'' ''repo'' ''bug''])"
  have names: "Owner (Repository relabel_settings) = ''owner''"
    "repository.Name (Repository relabel_settings) = ''repo''"
    by code_simp+
  have read: "GetSettingsFromGithub ?client (fst ?st) (Owner (Repository relabel_settings))
                (repository.Name (Repository relabel_settings)) = Ok relabel_snapshot"
    by code_simp
  have repo: "updateRepoSettings ?client (Owner (Repository relabel_settings))
                (repository.Name (Repository relabel_settings))
                (Repository relabel_snapshot) (Repository relabel_settings) ?st = (None, ?st)"
    by code_simp
  have calls: "updateLabels_calls ?client (Owner (Repository relabel_settings))
                (repository.Name (Repository relabel_settings))
                (Labels relabel_snapshot) (Labels relabel_settings) =
     [(Issues_DeleteLabel ''owner'' ''repo'' ''bug'', ''Error deleting a label\<newline>'')] @
     (Issues_CreateLabel ''owner'' ''repo'' (github_Label_of feature_label),
      ''Error creating a label\<newline>'') # []"
    by code_simp
  have before: "run_calls ?client
      [(Issues_DeleteLabel ''owner'' ''repo'' ''bug'', ''Error deleting a label\<newline>'')] ?st =
      (None, ?st2)"
    by code_simp
  have fails: "exec ?client (Issues_CreateLabel ''owner'' ''repo'' (github_Label_of feature_label))
      (fst ?st2) = (Some (Error ''rejected''), no_bug_remote)"
    by code_simp
  from Apply_label_write_failure[OF read repo calls before fails] read repo calls fails
  show ?thesis by (simp add: names)
qed

section \<open>Go maps built from a list\<close>

text \<open>
  The three reconcilers store the remote entities in a map under their identity. With
  pairwise distinct identities a lookup finds the one entity with that identity; in
  general it finds the last one.
\<close>

lemma find_app:
  "find P (xs @ ys) = (case find P xs of None \<Rightarrow> find P ys | Some x \<Rightarrow> Some x)"
  by (induction xs) auto

lemma find_SomeD: "find P xs = Some x \<Longrightarrow> x \<in> set xs \<and> P x"
  by (induction xs) (auto split: if_splits)

lemma fold_update_map_of:
  "map_of (fold (\<lambda>a. AList.update (key a) a) A m) k =
     (case find (\<lambda>a. key a = k) (rev A) of Some a \<Rightarrow> Some a | None \<Rightarrow> map_of m k)"
proof (induction A arbitrary: m)
  case Nil
  then show ?case by simp
next
  case (Cons a A)
  show ?case
    by (simp add: Cons.IH find_app update_conv' split: option.splits)
qed

lemma fold_update_distinct:
  "distinct (map fst m) \<Longrightarrow> distinct (map fst (fold (\<lambda>a. AList.update (key a) a) A m))"
  by (induction A arbitrary: m) (simp_all add: distinct_update)

lemma find_unique:
  "distinct (map key A) \<Longrightarrow> a \<in> set A \<Longrightarrow> find (\<lambda>x. key x = key a) A = Some a"
  by (induction A) (auto simp: rev_image_eqI)

lemma find_rev_unique:
  "distinct (map key A) \<Longrightarrow> a \<in> set A \<Longrightarrow> find (\<lambda>x. key x = key a) (rev A) = Some a"
  using find_unique[of key "rev A" a] by (simp add: rev_map[symmetric])

lemma gomap_lookup_Some:
  assumes "distinct (map key A)"
  shows "map_of (fold (\<lambda>a. AList.update (key a) a) A []) k = Some a \<longleftrightarrow> a \<in> set A \<and> key a = k"
proof
  assume "map_of (fold (\<lambda>a. AList.update (key a) a) A []) k = Some a"
  then have "find (\<lambda>a. key a = k) (rev A) = Some a"
    by (simp add: fold_update_map_of split: option.splits)
  then show "a \<in> set A \<and> key a = k"
    by (auto dest: find_SomeD)
next
  assume "a \<in> set A \<and> key a = k"
  with find_rev_unique[OF assms, of a] show "map_of (fold (\<lambda>a. AList.update (key a) a) A []) k = Some a"
    by (auto simp: fold_update_map_of)
qed

lemma gomap_lookup_None:
  "map_of (fold (\<lambda>a. AList.update (key a) a) A []) k = None \<longleftrightarrow> k \<notin> key ` set A"
  by (auto simp: fold_update_map_of find_None_iff split: option.splits dest: find_SomeD)

lemma gomap_entries:
  assumes "distinct (map key A)"
  shows "set (fold (\<lambda>a. AList.update (key a) a) A []) = (\<lambda>a. (key a, a)) ` set A"
proof -
  let ?m = "fold (\<lambda>a. AList.update (key a) a) A []"
  have d: "distinct (map fst ?m)" by (rule fold_update_distinct) simp
  have "(k, v) \<in> set ?m \<longleftrightarrow> v \<in> set A \<and> key v = k" for k v
    using map_of_eq_Some_iff[OF d, of k v] gomap_lookup_Some[OF assms, of k v] by simp
  then show ?thesis by auto
qed

lemma delete_as_filter: "AList.delete k m = filter (\<lambda>kv. fst kv \<noteq> k) m"
  by (induction m) auto

lemma map_of_filter_keys:
  "map_of (filter (\<lambda>kv. fst kv \<notin> S) m) k = (if k \<in> S then None else map_of m k)"
  by (induction m) auto

lemma range_map_set: "set (range_map client site m) = set m"
  by (simp add: range_map_def)

lemma filter_insert_key:
  "filter (\<lambda>kv. fst kv \<notin> insert k S) m = filter (\<lambda>kv. fst kv \<notin> S) (filter (\<lambda>kv. fst kv \<noteq> k) m)"
  by (induction m) auto

lemma filter_insert_absent:
  "map_of m k = None \<Longrightarrow>
   filter (\<lambda>kv. fst kv \<noteq> k \<and> fst kv \<notin> S) m = filter (\<lambda>kv. fst kv \<notin> S) m"
  by (induction m) (auto split: if_splits)

lemma map_of_delete_other:
  "k' \<noteq> k \<Longrightarrow> map_of (AList.delete k m) k' = map_of m k'"
  by (simp add: delete_conv')

lemma label_map_lookup_Some:
  "distinct (map label.Name A) \<Longrightarrow>
   map_of (label_map A) k = Some a \<longleftrightarrow> a \<in> set A \<and> label.Name a = k"
  unfolding label_map_def by (rule gomap_lookup_Some)

lemma label_map_lookup_None: "map_of (label_map A) k = None \<longleftrightarrow> k \<notin> label.Name ` set A"
  unfolding label_map_def by (rule gomap_lookup_None)

lemma label_map_entries:
  "distinct (map label.Name A) \<Longrightarrow> set (label_map A) = (\<lambda>a. (label.Name a, a)) ` set A"
  unfolding label_map_def by (rule gomap_entries)

lemma branch_map_lookup_None:
  "map_of (branch_map A) k = None \<longleftrightarrow> k \<notin> branch.Name ` set A"
  unfolding branch_map_def by (rule gomap_lookup_None)

lemma branch_map_lookup_Some:
  "distinct (map branch.Name A) \<Longrightarrow>
   map_of (branch_map A) k = Some a \<longleftrightarrow> a \<in> set A \<and> branch.Name a = k"
  unfolding branch_map_def by (rule gomap_lookup_Some)

lemma branch_map_entries:
  "distinct (map branch.Name A) \<Longrightarrow> set (branch_map A) = (\<lambda>a. (branch.Name a, a)) ` set A"
  unfolding branch_map_def by (rule gomap_entries)

lemma webhook_map_lookup_Some:
  "distinct (map URL A) \<Longrightarrow> map_of (webhook_map A) k = Some a \<longleftrightarrow> a \<in> set A \<and> URL a = k"
  unfolding webhook_map_def by (rule gomap_lookup_Some)

lemma webhook_map_lookup_None: "map_of (webhook_map A) k = None \<longleftrightarrow> k \<notin> URL ` set A"
  unfolding webhook_map_def by (rule gomap_lookup_None)

lemma webhook_map_entries:
  "distinct (map URL A) \<Longrightarrow> set (webhook_map A) = (\<lambda>a. (URL a, a)) ` set A"
  unfolding webhook_map_def by (rule gomap_entries)

lemma extends_phase:
  "extends lo hi st st' \<Longrightarrow> c \<in> set (calls_of st st') \<Longrightarrow> lo \<le> phase c \<and> phase c \<le> hi"
  by (auto simp: extends_def within_def calls_of_def)

section \<open>The diff by identity\<close>

lemma labels_loop_distinct:
  "distinct (map label.Name D) \<Longrightarrow>
   labels_loop D (cs, us, m) =
     (cs @ filter (\<lambda>d. map_of m (label.Name d) = None) D,
      us @ filter (\<lambda>d. \<exists>g. map_of m (label.Name d) = Some g \<and> d \<noteq> g) D,
      filter (\<lambda>kv. fst kv \<notin> label.Name ` set D) m)"
proof (induction D arbitrary: cs us m)
  case Nil
  then show ?case by simp
next
  case (Cons d D)
  then have dist: "distinct (map label.Name D)" and fresh: "label.Name d \<notin> label.Name ` set D"
    by simp_all
  show ?case
  proof (cases "map_of m (label.Name d)")
    case None
    then show ?thesis
      by (simp add: Cons.IH[OF dist] filter_insert_absent)
  next
    case (Some g)
    let ?m' = "AList.delete (label.Name d) m"
    have same: "map_of ?m' (label.Name d') = map_of m (label.Name d')" if "d' \<in> set D" for d'
      using that fresh by (intro map_of_delete_other) (metis imageI)
    have f1: "filter (\<lambda>d. map_of ?m' (label.Name d) = None) D =
              filter (\<lambda>d. map_of m (label.Name d) = None) D"
      by (rule filter_cong) (simp_all add: same)
    have f2: "filter (\<lambda>d. \<exists>g. map_of ?m' (label.Name d) = Some g \<and> d \<noteq> g) D =
              filter (\<lambda>d. \<exists>g. map_of m (label.Name d) = Some g \<and> d \<noteq> g) D"
      by (rule filter_cong) (simp_all add: same)
    have f3: "filter (\<lambda>kv. fst kv \<notin> label.Name ` set D) ?m' =
              filter (\<lambda>kv. fst kv \<notin> label.Name ` set (d # D)) m"
      by (simp add: filter_insert_key delete_as_filter)
    show ?thesis
      using Some by (simp add: Cons.IH[OF dist] f1 f2 f3[simplified])
  qed
qed

lemma labels_loop_spec:
  assumes "distinct (map label.Name A)" and "distinct (map label.Name D)"
  shows "labels_loop D ([], [], label_map A) =
     (absent_from label.Name A D,
      common_differing label.Name (\<lambda>a d. d \<noteq> a) A D,
      filter (\<lambda>kv. fst kv \<notin> label.Name ` set D) (label_map A))"
    and "snd ` set (filter (\<lambda>kv. fst kv \<notin> label.Name ` set D) (label_map A)) =
         set (absent_from label.Name D A)"
proof -
  have 1: "filter (\<lambda>d. map_of (label_map A) (label.Name d) = None) D = absent_from label.Name A D"
    by (simp add: label_map_lookup_None absent_from_def)
  have 2: "filter (\<lambda>d. \<exists>g. map_of (label_map A) (label.Name d) = Some g \<and> d \<noteq> g) D =
           common_differing label.Name (\<lambda>a d. d \<noteq> a) A D"
    unfolding common_differing_def
    by (rule filter_cong) (auto simp: label_map_lookup_Some[OF assms(1)])
  show "labels_loop D ([], [], label_map A) =
     (absent_from label.Name A D,
      common_differing label.Name (\<lambda>a d. d \<noteq> a) A D,
      filter (\<lambda>kv. fst kv \<notin> label.Name ` set D) (label_map A))"
    by (simp add: labels_loop_distinct[OF assms(2)] 1 2)
  show "snd ` set (filter (\<lambda>kv. fst kv \<notin> label.Name ` set D) (label_map A)) =
         set (absent_from label.Name D A)"
    by (auto simp: label_map_entries[OF assms(1)] absent_from_def image_iff)
qed

lemma createBranch_single:
  assumes "createBranch client [b] url st = (None, st')"
  shows "\<exists>h. snd st' = snd st @ [git_Clone url, git_Head, git_SetReference (''refs/heads/'' @ b) h, git_Push]"
proof -
  obtain r1 st1 where i1: "invoke client (git_Clone url) st = (r1, st1)" by (metis surj_pair)
  with assms have r1: "r1 = None" by (auto simp: createBranch_def split: option.splits)
  from assms i1 r1 obtain h where h: "repo_Head client (fst st1) = Inr h"
    by (cases "repo_Head client (fst st1)") (auto simp: createBranch_def)
  let ?st2 = "(fst st1, snd st1 @ [git_Head])"
  from assms i1 r1 h have l: "createBranch_loop client h [b] ?st2 = (None, st')"
    by (simp add: createBranch_def)
  obtain r3 st3 where i3: "invoke client (git_SetReference (''refs/heads/'' @ b) h) ?st2 = (r3, st3)"
    by (metis surj_pair)
  with l have r3: "r3 = None" by (auto split: option.splits)
  obtain r4 st4 where i4: "invoke client git_Push st3 = (r4, st4)" by (metis surj_pair)
  with l i3 r3 have r4: "r4 = None" and "st' = st4" by (auto split: option.splits)
  with invoke_calls[OF i1] invoke_calls[OF i3] invoke_calls[OF i4]
  have "snd st' = snd st @ [git_Clone url, git_Head, git_SetReference (''refs/heads/'' @ b) h, git_Push]"
    by simp
  then show ?thesis ..
qed

lemma branches_loop_final_map:
  "branches_loop client owner name D (us, m) st = (Inr (us', m'), st') \<Longrightarrow>
   m' = filter (\<lambda>kv. fst kv \<notin> branch.Name ` set D) m"
proof (induction D arbitrary: us m st)
  case Nil
  then show ?case by simp
next
  case (Cons d D)
  show ?case
  proof (cases "map_of m (branch.Name d)")
    case None
    with Cons.prems obtain st1 where
      "branches_loop client owner name D (us @ [d], m) st1 = (Inr (us', m'), st')"
      by (auto split: prod.splits option.splits)
    from Cons.IH[OF this] None show ?thesis by (simp add: filter_insert_absent)
  next
    case (Some g)
    with Cons.prems obtain us1 where
      "branches_loop client owner name D (us1, AList.delete (branch.Name d) m) st = (Inr (us', m'), st')"
      by auto
    from Cons.IH[OF this] show ?thesis
      by (simp add: delete_as_filter conj_commute)
  qed
qed

lemma branches_loop_scheduled:
  "branches_loop client owner name D (us, m) st = (Inr (us', m'), st') \<Longrightarrow>
   set us \<subseteq> set us' \<and> set us' \<subseteq> set us \<union> set D \<and>
   (\<forall>d \<in> set D. map_of m (branch.Name d) = None \<longrightarrow> d \<in> set us')"
proof (induction D arbitrary: us m st)
  case Nil
  then show ?case by simp
next
  case (Cons d D)
  show ?case
  proof (cases "map_of m (branch.Name d)")
    case None
    with Cons.prems obtain st1 where
      "branches_loop client owner name D (us @ [d], m) st1 = (Inr (us', m'), st')"
      by (auto split: prod.splits option.splits)
    from Cons.IH[OF this] None show ?thesis by auto
  next
    case (Some g)
    define us1 where "us1 = (if g \<noteq> d then us @ [d] else us)"
    have us1: "set us \<subseteq> set us1" "set us1 \<subseteq> set us \<union> {d}"
      by (auto simp: us1_def)
    from Some Cons.prems have
      l: "branches_loop client owner name D (us1, AList.delete (branch.Name d) m) st = (Inr (us', m'), st')"
      by (simp add: us1_def)
    have "map_of (AList.delete (branch.Name d) m) k = None" if "map_of m k = None" for k
      using that by (simp add: delete_conv')
    with Cons.IH[OF l] us1 Some show ?thesis by auto
  qed
qed

lemma branches_loop_distinct:
  "distinct (map branch.Name D) \<Longrightarrow>
   branches_loop client owner name D (us, m) st = (Inr (us', m'), st') \<Longrightarrow>
   us' = us @ filter (\<lambda>d. map_of m (branch.Name d) \<noteq> Some d) D \<and>
   (\<exists>ext. snd st' = snd st @ ext \<and>
      List.map_filter ref_of ext =
        map (\<lambda>d. ''refs/heads/'' @ branch.Name d) (filter (\<lambda>d. map_of m (branch.Name d) = None) D))"
proof (induction D arbitrary: us m st)
  case Nil
  then show ?case by (simp add: List.map_filter_simps)
next
  case (Cons d D)
  then have dist: "distinct (map branch.Name D)" and fresh: "branch.Name d \<notin> branch.Name ` set D"
    by simp_all
  show ?case
  proof (cases "map_of m (branch.Name d)")
    case None
    with Cons.prems(2) obtain st1 where
      c: "createBranch client [branch.Name d] (fmtGithubURL owner name (token client)) st = (None, st1)"
      and l: "branches_loop client owner name D (us @ [d], m) st1 = (Inr (us', m'), st')"
      by (auto split: prod.splits option.splits)
    from createBranch_single[OF c] obtain h where
      t1: "snd st1 = snd st @ [git_Clone (fmtGithubURL owner name (token client)), git_Head,
             git_SetReference (''refs/heads/'' @ branch.Name d) h, git_Push]" ..
    from Cons.IH[OF dist l] obtain ext where
      u: "us' = (us @ [d]) @ filter (\<lambda>d. map_of m (branch.Name d) \<noteq> Some d) D" and
      e: "snd st' = snd st1 @ ext" and
      r: "List.map_filter ref_of ext =
          map (\<lambda>d. ''refs/heads/'' @ branch.Name d) (filter (\<lambda>d. map_of m (branch.Name d) = None) D)"
      by blast
    let ?ext = "[git_Clone (fmtGithubURL owner name (token client)), git_Head,
             git_SetReference (''refs/heads/'' @ branch.Name d) h, git_Push] @ ext"
    have "snd st' = snd st @ ?ext" using t1 e by simp
    moreover have "List.map_filter ref_of ?ext =
        map (\<lambda>d. ''refs/heads/'' @ branch.Name d)
          (filter (\<lambda>d. map_of m (branch.Name d) = None) (d # D))"
      using r None by (simp add: List.map_filter_simps)
    ultimately show ?thesis using u None by auto
  next
    case (Some g)
    let ?m' = "AList.delete (branch.Name d) m"
    let ?us1 = "if g \<noteq> d then us @ [d] else us"
    from Some Cons.prems(2) have
      l: "branches_loop client owner name D (?us1, ?m') st = (Inr (us', m'), st')"
      by simp
    have same: "map_of ?m' (branch.Name d') = map_of m (branch.Name d')" if "d' \<in> set D" for d'
      using that fresh by (intro map_of_delete_other) (metis imageI)
    have f1: "filter (\<lambda>d. map_of ?m' (branch.Name d) \<noteq> Some d) D =
              filter (\<lambda>d. map_of m (branch.Name d) \<noteq> Some d) D"
      by (rule filter_cong) (simp_all add: same)
    have f2: "filter (\<lambda>d. map_of ?m' (branch.Name d) = None) D =
              filter (\<lambda>d. map_of m (branch.Name d) = None) D"
      by (rule filter_cong) (simp_all add: same)
    from Cons.IH[OF dist l] show ?thesis
      using Some by (auto simp: f1 f2)
  qed
qed

lemma webhooks_loop_final_map:
  "webhooks_loop client owner name D (us, m) st = (Inr (us', m'), st') \<Longrightarrow>
   m' = filter (\<lambda>kv. fst kv \<notin> URL ` set D) m"
proof (induction D arbitrary: us m st)
  case Nil
  then show ?case by simp
next
  case (Cons d D)
  show ?case
  proof (cases "map_of m (URL d)")
    case None
    with Cons.prems obtain st1 where
      "webhooks_loop client owner name D (us, m) st1 = (Inr (us', m'), st')"
      by (auto split: prod.splits option.splits)
    from Cons.IH[OF this] None show ?thesis by (simp add: filter_insert_absent)
  next
    case (Some g)
    with Cons.prems obtain us1 where
      "webhooks_loop client owner name D (us1, AList.delete (URL d) m) st = (Inr (us', m'), st')"
      by (auto simp: Let_def)
    from Cons.IH[OF this] show ?thesis
      by (simp add: delete_as_filter conj_commute)
  qed
qed

lemma webhooks_loop_updates:
  "webhooks_loop client owner name D (us, m) st = (Inr (us', m'), st') \<Longrightarrow> u \<in> set us' \<Longrightarrow>
   u \<in> set us \<or>
   (\<exists>d \<in> set D. \<exists>g. map_of m (URL d) = Some g \<and> u = d\<lparr>ID := ID g\<rparr> \<and>
       g\<lparr>Secret := Secret d\<rparr> \<noteq> d\<lparr>ID := ID g\<rparr>)"
proof (induction D arbitrary: us m st)
  case Nil
  then show ?case by simp
next
  case (Cons d D)
  show ?case
  proof (cases "map_of m (URL d)")
    case None
    with Cons.prems(1) obtain st1 where
      "webhooks_loop client owner name D (us, m) st1 = (Inr (us', m'), st')"
      by (auto split: prod.splits option.splits)
    from Cons.IH[OF this Cons.prems(2)] show ?thesis by auto
  next
    case (Some g)
    define us1 where
      "us1 = (if g\<lparr>Secret := Secret d\<rparr> \<noteq> d\<lparr>ID := ID g\<rparr> then us @ [d\<lparr>ID := ID g\<rparr>] else us)"
    from Some Cons.prems(1) have
      l: "webhooks_loop client owner name D (us1, AList.delete (URL d) m) st = (Inr (us', m'), st')"
      by (simp add: us1_def Let_def)
    have sub: "map_of m k = Some v" if "map_of (AList.delete (URL d) m) k = Some v" for k v
      using that by (simp add: delete_conv' split: if_splits)
    from Cons.IH[OF l Cons.prems(2)] consider "u \<in> set us1"
      | d' g' where "d' \<in> set D" "map_of (AList.delete (URL d) m) (URL d') = Some g'"
          "u = d'\<lparr>ID := ID g'\<rparr>" "g'\<lparr>Secret := Secret d'\<rparr> \<noteq> d'\<lparr>ID := ID g'\<rparr>"
      by blast
    then show ?thesis
    proof cases
      case 1
      then show ?thesis using Some by (auto simp: us1_def split: if_splits)
    next
      case 2
      with sub[OF 2(2)] show ?thesis by auto
    qed
  qed
qed

lemma webhooks_loop_distinct:
  "distinct (map URL D) \<Longrightarrow>
   webhooks_loop client owner name D (us, m) st = (Inr (us', m'), st') \<Longrightarrow>
   us' = us @ concat (map (\<lambda>d. case map_of m (URL d) of
                                None \<Rightarrow> []
                              | Some g \<Rightarrow> if webhook_differ g d then [d\<lparr>ID := ID g\<rparr>] else []) D) \<and>
   snd st' = snd st @ map (\<lambda>d. Repositories_CreateHook owner name (github_Hook_of d))
                        (filter (\<lambda>d. map_of m (URL d) = None) D)"
proof (induction D arbitrary: us m st)
  case Nil
  then show ?case by simp
next
  case (Cons d D)
  then have dist: "distinct (map URL D)" and fresh: "URL d \<notin> URL ` set D"
    by simp_all
  show ?case
  proof (cases "map_of m (URL d)")
    case None
    with Cons.prems(2) obtain st1 where
      c: "invoke client (Repositories_CreateHook owner name (github_Hook_of d)) st = (None, st1)"
      and l: "webhooks_loop client owner name D (us, m) st1 = (Inr (us', m'), st')"
      by (auto split: prod.splits option.splits)
    from Cons.IH[OF dist l] invoke_calls[OF c] None show ?thesis by simp
  next
    case (Some g)
    let ?m' = "AList.delete (URL d) m"
    let ?us1 = "if webhook_differ g d then us @ [d\<lparr>ID := ID g\<rparr>] else us"
    from Some Cons.prems(2) have
      l: "webhooks_loop client owner name D (?us1, ?m') st = (Inr (us', m'), st')"
      by (simp add: Let_def webhook_differ_def)
    have same: "map_of ?m' (URL d') = map_of m (URL d')" if "d' \<in> set D" for d'
      using that fresh by (intro map_of_delete_other) (metis imageI)
    have f1: "map (\<lambda>d. case map_of ?m' (URL d) of
                                None \<Rightarrow> []
                              | Some g \<Rightarrow> if webhook_differ g d then [d\<lparr>ID := ID g\<rparr>] else []) D =
              map (\<lambda>d. case map_of m (URL d) of
                                None \<Rightarrow> []
                              | Some g \<Rightarrow> if webhook_differ g d then [d\<lparr>ID := ID g\<rparr>] else []) D"
      by (rule map_cong) (simp_all add: same)
    have f2: "filter (\<lambda>d. map_of ?m' (URL d) = None) D = filter (\<lambda>d. map_of m (URL d) = None) D"
      by (rule filter_cong) (simp_all add: same)
    from Cons.IH[OF dist l] show ?thesis
      using Some by (auto simp: f1 f2)
  qed
qed

lemma concat_map_if: "concat (map (\<lambda>x. if P x then [f x] else []) xs) = map f (filter P xs)"
  by (induction xs) auto

lemma webhook_updates_spec:
  assumes "distinct (map URL A)"
  shows "concat (map (\<lambda>d. case map_of (webhook_map A) (URL d) of
                                None \<Rightarrow> []
                              | Some g \<Rightarrow> if webhook_differ g d then [d\<lparr>ID := ID g\<rparr>] else []) D) =
         map (with_remote_ID A) (common_differing URL webhook_differ A D)"
proof -
  have "(case map_of (webhook_map A) (URL d) of
           None \<Rightarrow> []
         | Some g \<Rightarrow> if webhook_differ g d then [d\<lparr>ID := ID g\<rparr>] else []) =
        (if (\<exists>a \<in> set A. URL a = URL d \<and> webhook_differ a d) then [with_remote_ID A d] else [])"
    for d
  proof (cases "map_of (webhook_map A) (URL d)")
    case None
    then have "URL d \<notin> URL ` set A" by (simp add: webhook_map_lookup_None)
    then have "\<not> (\<exists>a \<in> set A. URL a = URL d \<and> webhook_differ a d)" by (metis imageI)
    with None show ?thesis by simp
  next
    case (Some g)
    then have g: "g \<in> set A" "URL g = URL d"
      by (simp_all add: webhook_map_lookup_Some[OF assms])
    have uniq: "a = g" if "a \<in> set A" "URL a = URL d" for a
    proof -
      from that have "map_of (webhook_map A) (URL d) = Some a"
        by (simp add: webhook_map_lookup_Some[OF assms])
      with Some show ?thesis by simp
    qed
    have "find (\<lambda>a. URL a = URL d) A = Some g"
      using find_unique[OF assms g(1)] g(2) by simp
    then have w: "with_remote_ID A d = d\<lparr>ID := ID g\<rparr>" by (simp add: with_remote_ID_def)
    have "(\<exists>a \<in> set A. URL a = URL d \<and> webhook_differ a d) \<longleftrightarrow> webhook_differ g d"
      using g uniq by blast
    with Some w show ?thesis by simp
  qed
  then show ?thesis
    by (simp add: concat_map_if common_differing_def)
qed

lemma branch_updates_spec:
  assumes "distinct (map branch.Name A)"
  shows "set (filter (\<lambda>d. map_of (branch_map A) (branch.Name d) \<noteq> Some d) D) =
         set (absent_from branch.Name A D) \<union> set (common_differing branch.Name (\<lambda>a d. a \<noteq> d) A D)"
proof -
  have "map_of (branch_map A) (branch.Name d) \<noteq> Some d \<longleftrightarrow>
        branch.Name d \<notin> branch.Name ` set A \<or> (\<exists>a \<in> set A. branch.Name a = branch.Name d \<and> a \<noteq> d)"
    for d
  proof (cases "map_of (branch_map A) (branch.Name d)")
    case None
    then have "branch.Name d \<notin> branch.Name ` set A" by (simp add: branch_map_lookup_None)
    with None show ?thesis by simp
  next
    case (Some g)
    then have g: "g \<in> set A" "branch.Name g = branch.Name d"
      by (simp_all add: branch_map_lookup_Some[OF assms])
    have uniq: "a = g" if "a \<in> set A" "branch.Name a = branch.Name d" for a
    proof -
      from that have "map_of (branch_map A) (branch.Name d) = Some a"
        by (simp add: branch_map_lookup_Some[OF assms])
      with Some show ?thesis by simp
    qed
    from g uniq Some show ?thesis by (metis imageI option.inject)
  qed
  then show ?thesis
    by (auto simp: absent_from_def common_differing_def)
qed

text \<open>
  C2, as the code has it. Let the identities be pairwise distinct among the remote
  entities and among the desired entities. For labels the three variables of the loop are
  the three sets of the claim. For webhooks the hooks created are the desired entries
  whose URL is absent remotely, the entries left in the map are the remote entries whose
  URL is absent from the desired ones, and the entries to update are the common entries
  that differ once the secret and the ID are aligned, each with the remote ID. For
  branches the branches created and the entries left in the map (whose protection is
  removed) are as for the other kinds, and the entries to update are the branches created
  together with the common entries that differ.
\<close>

theorem diff_by_identity:
  assumes "distinct (map label.Name githubLabels)" and "distinct (map label.Name labelsSettings)"
      and "distinct (map branch.Name githubBranches)" and "distinct (map branch.Name branchesSettings)"
      and "distinct (map URL githubWebhooks)" and "distinct (map URL webhooksSettings)"
  shows "(labels_loop labelsSettings ([], [], label_map githubLabels) =
            (labelsToCreate, labelsToUpdate, deleteLabelMap) \<longrightarrow>
          labelsToCreate = absent_from label.Name githubLabels labelsSettings \<and>
          snd ` set deleteLabelMap = set (absent_from label.Name labelsSettings githubLabels) \<and>
          labelsToUpdate = common_differing label.Name (\<lambda>a d. d \<noteq> a) githubLabels labelsSettings) \<and>
         (branches_loop client owner name branchesSettings ([], branch_map githubBranches) st =
            (Inr (branchesToUpdate, deleteBranchesMap), st1) \<longrightarrow>
          List.map_filter ref_of (calls_of st st1) =
            map (\<lambda>d. ''refs/heads/'' @ branch.Name d)
              (absent_from branch.Name githubBranches branchesSettings) \<and>
          snd ` set deleteBranchesMap = set (absent_from branch.Name branchesSettings githubBranches) \<and>
          set branchesToUpdate =
            set (absent_from branch.Name githubBranches branchesSettings) \<union>
            set (common_differing branch.Name (\<lambda>a d. a \<noteq> d) githubBranches branchesSettings)) \<and>
         (webhooks_loop client owner name webhooksSettings ([], webhook_map githubWebhooks) st =
            (Inr (webhooksToUpdate, deleteWebhooksMap), st2) \<longrightarrow>
          calls_of st st2 =
            map (\<lambda>d. Repositories_CreateHook owner name (github_Hook_of d))
              (absent_from URL githubWebhooks webhooksSettings) \<and>
          snd ` set deleteWebhooksMap = set (absent_from URL webhooksSettings githubWebhooks) \<and>
          webhooksToUpdate =
            map (with_remote_ID githubWebhooks)
              (common_differing URL webhook_differ githubWebhooks webhooksSettings))"
proof (intro conjI impI)
  assume l: "labels_loop labelsSettings ([], [], label_map githubLabels) =
            (labelsToCreate, labelsToUpdate, deleteLabelMap)"
  note spec = labels_loop_spec[OF assms(1) assms(2)]
  from l spec(1) show "labelsToCreate = absent_from label.Name githubLabels labelsSettings"
    by simp
  from l spec(1) show
    "labelsToUpdate = common_differing label.Name (\<lambda>a d. d \<noteq> a) githubLabels labelsSettings"
    by simp
  from l spec show "snd ` set deleteLabelMap = set (absent_from label.Name labelsSettings githubLabels)"
    by simp
next
  assume l: "branches_loop client owner name branchesSettings ([], branch_map githubBranches) st =
            (Inr (branchesToUpdate, deleteBranchesMap), st1)"
  from branches_loop_distinct[OF assms(4) l] obtain ext where
    us: "branchesToUpdate =
           filter (\<lambda>d. map_of (branch_map githubBranches) (branch.Name d) \<noteq> Some d) branchesSettings"
    and e: "snd st1 = snd st @ ext"
    and refs: "List.map_filter ref_of ext =
        map (\<lambda>d. ''refs/heads/'' @ branch.Name d)
          (filter (\<lambda>d. map_of (branch_map githubBranches) (branch.Name d) = None) branchesSettings)"
    by auto
  from e refs show "List.map_filter ref_of (calls_of st st1) =
            map (\<lambda>d. ''refs/heads/'' @ branch.Name d)
              (absent_from branch.Name githubBranches branchesSettings)"
    by (simp add: calls_of_def branch_map_lookup_None absent_from_def)
  from us show "set branchesToUpdate =
            set (absent_from branch.Name githubBranches branchesSettings) \<union>
            set (common_differing branch.Name (\<lambda>a d. a \<noteq> d) githubBranches branchesSettings)"
    by (simp only: branch_updates_spec[OF assms(3)])
  from branches_loop_final_map[OF l] show
    "snd ` set deleteBranchesMap = set (absent_from branch.Name branchesSettings githubBranches)"
    by (auto simp: branch_map_entries[OF assms(3)] absent_from_def image_iff)
next
  assume l: "webhooks_loop client owner name webhooksSettings ([], webhook_map githubWebhooks) st =
            (Inr (webhooksToUpdate, deleteWebhooksMap), st2)"
  from webhooks_loop_distinct[OF assms(6) l] have
    us: "webhooksToUpdate =
           concat (map (\<lambda>d. case map_of (webhook_map githubWebhooks) (URL d) of
                                None \<Rightarrow> []
                              | Some g \<Rightarrow> if webhook_differ g d then [d\<lparr>ID := ID g\<rparr>] else [])
                     webhooksSettings)"
    and e: "snd st2 = snd st @
        map (\<lambda>d. Repositories_CreateHook owner name (github_Hook_of d))
          (filter (\<lambda>d. map_of (webhook_map githubWebhooks) (URL d) = None) webhooksSettings)"
    by auto
  from e show "calls_of st st2 =
            map (\<lambda>d. Repositories_CreateHook owner name (github_Hook_of d))
              (absent_from URL githubWebhooks webhooksSettings)"
    by (simp add: calls_of_def webhook_map_lookup_None absent_from_def)
  from us show "webhooksToUpdate =
            map (with_remote_ID githubWebhooks)
              (common_differing URL webhook_differ githubWebhooks webhooksSettings)"
    by (simp only: webhook_updates_spec[OF assms(5)])
  from webhooks_loop_final_map[OF l] show
    "snd ` set deleteWebhooksMap = set (absent_from URL webhooksSettings githubWebhooks)"
    by (auto simp: webhook_map_entries[OF assms(5)] absent_from_def image_iff)
qed

text \<open>
  An instance. Labels: \<open>bug\<close> remotely, \<open>feature\<close> desired. Branches: \<open>main\<close>
  (protected) and \<open>old\<close> remotely, \<open>main\<close> and \<open>dev\<close> desired. Webhooks: one remote hook;
  desired are the same hook with one more event and a hook with a new URL.
\<close>

theorem diff_by_identity_witness:
  "distinct (map label.Name [bug_label]) \<and> distinct (map label.Name [feature_label]) \<and>
   distinct (map branch.Name [main_branch, old_branch]) \<and>
   distinct (map branch.Name [main_branch, dev_branch]) \<and>
   distinct (map URL [remote_hook]) \<and> distinct (map URL [changed_hook, new_hook]) \<and>
   labels_loop [feature_label] ([], [], label_map [bug_label]) =
     ([feature_label], [], [(''bug'', bug_label)]) \<and>
   absent_from label.Name [bug_label] [feature_label] = [feature_label] \<and>
   absent_from label.Name [feature_label] [bug_label] = [bug_label] \<and>
   common_differing label.Name (\<lambda>a d. d \<noteq> a) [bug_label] [feature_label] = [] \<and>
   branches_loop hosted ''owner'' ''repo'' [main_branch, dev_branch]
       ([], branch_map [main_branch, old_branch]) (branch_remote, []) =
     (Inr ([dev_branch], [(''old'', old_branch)]),
      (dev_pushed_remote,
       [git_Clone ''https://token@github.com/owner/repo.git'', git_Head,
        git_SetReference ''refs/heads/dev'' ''c0ffee'', git_Push])) \<and>
   absent_from branch.Name [main_branch, old_branch] [main_branch, dev_branch] = [dev_branch] \<and>
   absent_from branch.Name [main_branch, dev_branch] [main_branch, old_branch] = [old_branch] \<and>
   common_differing branch.Name (\<lambda>a d. a \<noteq> d) [main_branch, old_branch]
       [main_branch, dev_branch] = [] \<and>
   fst (webhooks_loop hosted ''owner'' ''repo'' [changed_hook, new_hook]
       ([], webhook_map [remote_hook]) (example_remote, [])) =
     Inr ([changed_hook\<lparr>ID := 7\<rparr>], []) \<and>
   snd (snd (webhooks_loop hosted ''owner'' ''repo'' [changed_hook, new_hook]
       ([], webhook_map [remote_hook]) (example_remote, []))) =
     [Repositories_CreateHook ''owner'' ''repo'' (github_Hook_of new_hook)] \<and>
   absent_from URL [remote_hook] [changed_hook, new_hook] = [new_hook] \<and>
   absent_from URL [changed_hook, new_hook] [remote_hook] = [] \<and>
   map (with_remote_ID [remote_hook])
     (common_differing URL webhook_differ [remote_hook] [changed_hook, new_hook]) =
     [changed_hook\<lparr>ID := 7\<rparr>]"
proof -
  have d1: "distinct (map label.Name [bug_label])"
    and d2: "distinct (map label.Name [feature_label])"
    and d3: "distinct (map branch.Name [main_branch, old_branch])"
    and d4: "distinct (map branch.Name [main_branch, dev_branch])"
    and d5: "distinct (map URL [remote_hook])"
    and d6: "distinct (map URL [changed_hook, new_hook])"
    by code_simp+
  have l: "labels_loop [feature_label] ([], [], label_map [bug_label]) =
     ([feature_label], [], [(''bug'', bug_label)])"
    by code_simp
  have b: "branches_loop hosted ''owner'' ''repo'' [main_branch, dev_branch]
       ([], branch_map [main_branch, old_branch]) (branch_remote, []) =
     (Inr ([dev_branch], [(''old'', old_branch)]),
      (dev_pushed_remote,
       [git_Clone ''https://token@github.com/owner/repo.git'', git_Head,
        git_SetReference ''refs/heads/dev'' ''c0ffee'', git_Push]))"
    by code_simp
  obtain st2 where w: "webhooks_loop hosted ''owner'' ''repo'' [changed_hook, new_hook]
       ([], webhook_map [remote_hook]) (example_remote, []) =
     (Inr ([changed_hook\<lparr>ID := 7\<rparr>], []), st2)"
    and c: "snd st2 = [Repositories_CreateHook ''owner'' ''repo'' (github_Hook_of new_hook)]"
  proof
    show "webhooks_loop hosted ''owner'' ''repo'' [changed_hook, new_hook]
       ([], webhook_map [remote_hook]) (example_remote, []) =
     (Inr ([changed_hook\<lparr>ID := 7\<rparr>], []),
      snd (webhooks_loop hosted ''owner'' ''repo'' [changed_hook, new_hook]
       ([], webhook_map [remote_hook]) (example_remote, [])))"
      by code_simp
    show "snd (snd (webhooks_loop hosted ''owner'' ''repo'' [changed_hook, new_hook]
       ([], webhook_map [remote_hook]) (example_remote, []))) =
       [Repositories_CreateHook ''owner'' ''repo'' (github_Hook_of new_hook)]"
      by code_simp
  qed
  have e1: "absent_from label.Name [feature_label] [bug_label] = [bug_label]" by code_simp
  have e2: "absent_from branch.Name [main_branch, dev_branch] [main_branch, old_branch] = [old_branch]"
    by code_simp
  have e3: "absent_from URL [changed_hook, new_hook] [remote_hook] = []" by code_simp
  have e4: "common_differing branch.Name (\<lambda>a d. a \<noteq> d) [main_branch, old_branch]
       [main_branch, dev_branch] = []" by code_simp
  have e5: "absent_from branch.Name [main_branch, old_branch] [main_branch, dev_branch] = [dev_branch]"
    by code_simp
  from diff_by_identity[OF d1 d2 d3 d4 d5 d6,
      where labelsToCreate = "[feature_label]" and labelsToUpdate = "[]"
        and deleteLabelMap = "[(''bug'', bug_label)]"
        and client = hosted and owner = "''owner''" and name = "''repo''"
        and st = "(example_remote, [])" and ?st2.0 = st2
        and webhooksToUpdate = "[changed_hook\<lparr>ID := 7\<rparr>]" and deleteWebhooksMap = "[]"]
    l w c
  have "[feature_label] = absent_from label.Name [bug_label] [feature_label] \<and>
        [] = common_differing label.Name (\<lambda>a d. d \<noteq> a) [bug_label] [feature_label] \<and>
        [Repositories_CreateHook ''owner'' ''repo'' (github_Hook_of new_hook)] =
          map (\<lambda>d. Repositories_CreateHook ''owner'' ''repo'' (github_Hook_of d))
            (absent_from URL [remote_hook] [changed_hook, new_hook]) \<and>
        [changed_hook\<lparr>ID := 7\<rparr>] = map (with_remote_ID [remote_hook])
          (common_differing URL webhook_differ [remote_hook] [changed_hook, new_hook])"
    by (simp add: calls_of_def)
  moreover have "absent_from URL [remote_hook] [changed_hook, new_hook] = [new_hook]"
    by code_simp
  ultimately show ?thesis
    using d1 d2 d3 d4 d5 d6 l b w c e1 e2 e3 e4 e5 by simp
qed

text \<open>
  C2 fails as stated. A desired label listed twice is looked up a second time after its
  name has been deleted from the map, so it is scheduled for creation although its name
  occurs remotely. A desired branch that does not exist remotely is scheduled for an
  update although its name does not occur remotely.
\<close>

theorem diff_by_identity_counterexample:
  "labels_loop [bug_label, bug_label] ([], [], label_map [bug_label]) = ([bug_label], [], []) \<and>
   set [bug_label] \<noteq> set (absent_from label.Name [bug_label] [bug_label, bug_label]) \<and>
   fst (branches_loop hosted ''owner'' ''repo'' [dev_branch] ([], branch_map []) (example_remote, [])) =
     Inr ([dev_branch], []) \<and>
   set [dev_branch] \<noteq> set (common_differing branch.Name (\<lambda>a d. a \<noteq> d) [] [dev_branch])"
  by code_simp

section \<open>Webhook secrets\<close>

lemma webhook_same:
  "URL d = URL a \<Longrightarrow> ContentType d = ContentType a \<Longrightarrow> Events d = Events a \<Longrightarrow>
   \<not> webhook_differ a d"
  unfolding webhook_differ_def by (simp add: webhook.equality)

lemma github_Hook_of_eq:
  "github_Hook_of u = github_Hook_of d \<longleftrightarrow>
   URL u = URL d \<and> ContentType u = ContentType d \<and> Secret u = Secret d \<and> Events u = Events d"
  by (auto simp: github_Hook_of_def)

lemma updateWebhooks_calls:
  assumes "updateWebhooks client owner name A D st = (r, st')"
  shows "\<exists>r0 st0. webhooks_loop client owner name D ([], webhook_map A) st = (r0, st0) \<and>
     (case r0 of
        Inl err \<Rightarrow> st' = st0
      | Inr (us, m) \<Rightarrow>
          (\<exists>n k. snd st' = snd st0 @
             take n (map (\<lambda>(_, webhookToDelete).
                            Repositories_DeleteHook owner name (ID webhookToDelete))
                       (range_map client ''deleteWebhooksMap'' m)) @
             take k (map (\<lambda>webhookToUpdate.
                            Repositories_EditHook owner name (ID webhookToUpdate)
                              (github_Hook_of webhookToUpdate)) us)))"
proof -
  obtain r0 st0 where l:
    "webhooks_loop client owner name D ([], webhook_map A) st = (r0, st0)" by (metis surj_pair)
  show ?thesis
  proof (cases r0)
    case (Inl e)
    with assms l show ?thesis by (auto simp: updateWebhooks_def)
  next
    case (Inr vars)
    obtain us m where vars: "vars = (us, m)" by (cases vars)
    let ?dels = "map (\<lambda>(_, webhookToDelete). Repositories_DeleteHook owner name (ID webhookToDelete))
                       (range_map client ''deleteWebhooksMap'' m)"
    let ?ups = "map (\<lambda>webhookToUpdate.
                            Repositories_EditHook owner name (ID webhookToUpdate)
                              (github_Hook_of webhookToUpdate)) us"
    obtain r1 st1 where d:
      "call_each client ''Error removing webhook\<newline>'' ?dels st0 = (r1, st1)"
      by (metis surj_pair)
    from call_each_prefix[OF d] obtain n where n: "snd st1 = snd st0 @ take n ?dels" ..
    show ?thesis
    proof (cases r1)
      case (Some e)
      with assms l Inr vars d have "st' = st1" by (simp add: updateWebhooks_def)
      with n have "snd st' = snd st0 @ take n ?dels @ take 0 ?ups" by simp
      then have "\<exists>n k. snd st' = snd st0 @ take n ?dels @ take k ?ups" by blast
      with l Inr vars show ?thesis by simp
    next
      case None
      with assms l Inr vars d have u:
        "call_each client ''Error updating webhook\<newline>'' ?ups st1 = (r, st')"
        by (simp add: updateWebhooks_def)
      from call_each_prefix[OF u] obtain k where "snd st' = snd st1 @ take k ?ups" ..
      with n have "snd st' = snd st0 @ take n ?dels @ take k ?ups" by simp
      then have "\<exists>n k. snd st' = snd st0 @ take n ?dels @ take k ?ups" by blast
      with l Inr vars show ?thesis by simp
    qed
  qed
qed

text \<open>
  C6. The remote hook \<open>a\<close> and the desired hook \<open>d\<close> have the same URL, content type
  and events, so that the two differ at most in the secret and the ID. Then the
  comparison of the loop, made after the remote ID is copied onto \<open>d\<close> and the secret of
  \<open>d\<close> onto \<open>a\<close>, finds no difference, and on the pair alone the reconciler issues no
  call at all. Among any remote hooks with pairwise distinct URLs that contain \<open>a\<close> and
  any desired hooks that contain \<open>d\<close>, no run of the reconciler, failed or not, sends
  \<open>d\<close> as an update.
\<close>

theorem webhook_secret_blind:
  assumes url: "URL d = URL a" and ct: "ContentType d = ContentType a"
      and ev: "Events d = Events a"
  shows "\<not> webhook_differ a d \<and>
         updateWebhooks client owner name [a] [d] st = (None, st) \<and>
         (distinct (map URL githubWebhooks) \<and> a \<in> set githubWebhooks \<and>
          d \<in> set webhooksSettings \<longrightarrow>
          Some (github_Hook_of d) \<notin>
            edited_hook ` set (calls_of st
               (snd (updateWebhooks client owner name githubWebhooks webhooksSettings st))))"
proof (intro conjI impI)
  show same: "\<not> webhook_differ a d" using url ct ev by (rule webhook_same)
  show "updateWebhooks client owner name [a] [d] st = (None, st)"
    using same url
    by (simp add: updateWebhooks_def webhook_map_def webhook_differ_def Let_def range_map_def)
  assume lists: "distinct (map URL githubWebhooks) \<and> a \<in> set githubWebhooks \<and>
          d \<in> set webhooksSettings"
  then have dist: "distinct (map URL githubWebhooks)" and a: "a \<in> set githubWebhooks"
    and d: "d \<in> set webhooksSettings" by simp_all
  show "Some (github_Hook_of d) \<notin>
           edited_hook ` set (calls_of st
              (snd (updateWebhooks client owner name githubWebhooks webhooksSettings st)))"
  proof
    assume "Some (github_Hook_of d) \<in>
           edited_hook ` set (calls_of st
              (snd (updateWebhooks client owner name githubWebhooks webhooksSettings st)))"
    then obtain c where
      c: "c \<in> set (calls_of st (snd (updateWebhooks client owner name githubWebhooks webhooksSettings st)))"
      and ec: "edited_hook c = Some (github_Hook_of d)" by force
    from ec have ph: "phase c = 9" by (cases c) auto
    obtain r st' where run:
      "updateWebhooks client owner name githubWebhooks webhooksSettings st = (r, st')"
      by (metis surj_pair)
    from updateWebhooks_calls[OF run] obtain r0 st0 where
      l: "webhooks_loop client owner name webhooksSettings ([], webhook_map githubWebhooks) st = (r0, st0)"
      and shape: "(case r0 of
        Inl err \<Rightarrow> st' = st0
      | Inr (us, m) \<Rightarrow>
          (\<exists>n k. snd st' = snd st0 @
             take n (map (\<lambda>(_, webhookToDelete).
                            Repositories_DeleteHook owner name (ID webhookToDelete))
                       (range_map client ''deleteWebhooksMap'' m)) @
             take k (map (\<lambda>webhookToUpdate.
                            Repositories_EditHook owner name (ID webhookToUpdate)
                              (github_Hook_of webhookToUpdate)) us)))"
      by blast
    note e0 = webhooks_loop_extends[OF l]
    from e0 obtain ext0 where t0: "snd st0 = snd st @ ext0" unfolding extends_def by blast
    have not_loop: "c \<notin> set ext0"
    proof
      assume "c \<in> set ext0"
      with t0 have "c \<in> set (calls_of st st0)" by (simp add: calls_of_def)
      from extends_phase[OF e0 this] ph show False by simp
    qed
    show False
    proof (cases r0)
      case (Inl e)
      with shape c run t0 not_loop show False by (auto simp: calls_of_def)
    next
      case (Inr vars)
      obtain us m where vars: "vars = (us, m)" by (cases vars)
      let ?dels = "map (\<lambda>(_, webhookToDelete). Repositories_DeleteHook owner name (ID webhookToDelete))
                       (range_map client ''deleteWebhooksMap'' m)"
      let ?ups = "map (\<lambda>webhookToUpdate.
                            Repositories_EditHook owner name (ID webhookToUpdate)
                              (github_Hook_of webhookToUpdate)) us"
      from shape Inr vars obtain n k where
        t: "snd st' = snd st0 @ take n ?dels @ take k ?ups" by auto
      with c run t0 not_loop consider "c \<in> set (take n ?dels)" | "c \<in> set (take k ?ups)"
        by (auto simp: calls_of_def)
      then show False
      proof cases
        case 1
        then have "c \<in> set ?dels" by (rule in_set_takeD)
        with ph show False by auto
      next
        case 2
        then have "c \<in> set ?ups" by (rule in_set_takeD)
        then obtain u where u: "u \<in> set us" and
          cu: "c = Repositories_EditHook owner name (ID u) (github_Hook_of u)" by auto
        from cu ec have hu: "github_Hook_of u = github_Hook_of d" by simp
        from webhooks_loop_updates[OF l[unfolded Inr vars] u] obtain d' g where
          d': "d' \<in> set webhooksSettings" and
          g: "map_of (webhook_map githubWebhooks) (URL d') = Some g" and
          ud: "u = d'\<lparr>ID := ID g\<rparr>" and
          differ: "g\<lparr>Secret := Secret d'\<rparr> \<noteq> d'\<lparr>ID := ID g\<rparr>"
          by auto
        from hu ud have eqs: "URL d' = URL d" "ContentType d' = ContentType d" "Events d' = Events d"
          by (simp_all add: github_Hook_of_eq)
        from a have "map_of (webhook_map githubWebhooks) (URL a) = Some a"
          by (simp add: webhook_map_lookup_Some[OF dist])
        with g eqs url have "g = a" by simp
        with differ have "webhook_differ a d'" by (simp add: webhook_differ_def)
        moreover have "\<not> webhook_differ a d'"
          using eqs url ct ev by (intro webhook_same) simp_all
        ultimately show False by simp
      qed
    qed
  qed
qed

text \<open>An instance: the desired hook has another secret and no ID yet.\<close>

theorem webhook_secret_blind_witness:
  "URL desired_hook = URL remote_hook \<and> ContentType desired_hook = ContentType remote_hook \<and>
   Events desired_hook = Events remote_hook \<and> Secret desired_hook \<noteq> Secret remote_hook \<and>
   ID desired_hook \<noteq> ID remote_hook \<and>
   updateWebhooks hosted ''owner'' ''repo'' [remote_hook] [desired_hook] (example_remote, []) =
     (None, (example_remote, [])) \<and>
   distinct (map URL [remote_hook]) \<and>
   Some (github_Hook_of desired_hook) \<notin>
     edited_hook ` set (calls_of (example_remote, [])
        (snd (updateWebhooks hosted ''owner'' ''repo'' [remote_hook] [desired_hook, new_hook]
                (example_remote, []))))"
proof -
  have url: "URL desired_hook = URL remote_hook"
    and ct: "ContentType desired_hook = ContentType remote_hook"
    and ev: "Events desired_hook = Events remote_hook"
    by (simp_all add: desired_hook_def remote_hook_def)
  have other: "Secret desired_hook \<noteq> Secret remote_hook" "ID desired_hook \<noteq> ID remote_hook"
    by (simp_all add: desired_hook_def remote_hook_def)
  from webhook_secret_blind[OF url ct ev, of hosted "''owner''" "''repo''" "(example_remote, [])"
      "[remote_hook]" "[desired_hook, new_hook]"]
    url ct ev other
  show ?thesis by simp
qed

section \<open>Branches on one side only\<close>

lemma branches_loop_append:
  "branches_loop client owner name (xs @ ys) vars st =
     (case branches_loop client owner name xs vars st of
        (Inl err, st1) \<Rightarrow> (Inl err, st1)
      | (Inr vars1, st1) \<Rightarrow> branches_loop client owner name ys vars1 st1)"
proof (induction xs arbitrary: vars st)
  case Nil
  then show ?case by simp
next
  case (Cons x xs)
  obtain us m where vars: "vars = (us, m)" by (cases vars)
  show ?case
    by (simp add: vars Cons.IH split: option.splits prod.splits)
qed

lemma branches_loop_created:
  "branches_loop client owner name D (us, m) st = (Inr (us', m'), st') \<Longrightarrow>
   d \<in> set D \<Longrightarrow> map_of m (branch.Name d) = None \<Longrightarrow>
   \<exists>h t1 t2. snd st' = snd st @ t1 @
       [git_Clone (fmtGithubURL owner name (token client)), git_Head,
        git_SetReference (''refs/heads/'' @ branch.Name d) h, git_Push] @ t2"
proof (induction D arbitrary: us m st)
  case Nil
  then show ?case by simp
next
  case (Cons x D)
  let ?url = "fmtGithubURL owner name (token client)"
  show ?case
  proof (cases "map_of m (branch.Name x)")
    case None
    with Cons.prems(1) obtain st1 where
      c: "createBranch client [branch.Name x] ?url st = (None, st1)"
      and l: "branches_loop client owner name D (us @ [x], m) st1 = (Inr (us', m'), st')"
      by (auto split: prod.splits option.splits)
    from createBranch_single[OF c] obtain hx where
      t1: "snd st1 = snd st @ [git_Clone ?url, git_Head,
             git_SetReference (''refs/heads/'' @ branch.Name x) hx, git_Push]" ..
    from branches_loop_extends[OF l] obtain ext where e: "snd st' = snd st1 @ ext"
      unfolding extends_def by blast
    show ?thesis
    proof (cases "d = x")
      case True
      have "snd st' = snd st @ [] @ [git_Clone ?url, git_Head,
             git_SetReference (''refs/heads/'' @ branch.Name d) hx, git_Push] @ ext"
        using t1 e True by simp
      then show ?thesis by blast
    next
      case False
      with Cons.prems(2) have "d \<in> set D" by simp
      from Cons.IH[OF l this Cons.prems(3)] obtain h t1' t2 where
        "snd st' = snd st1 @ t1' @ [git_Clone ?url, git_Head,
             git_SetReference (''refs/heads/'' @ branch.Name d) h, git_Push] @ t2" by blast
      with t1 have "snd st' = snd st @
          ([git_Clone ?url, git_Head,
             git_SetReference (''refs/heads/'' @ branch.Name x) hx, git_Push] @ t1') @
          [git_Clone ?url, git_Head,
             git_SetReference (''refs/heads/'' @ branch.Name d) h, git_Push] @ t2"
        by simp
      then show ?thesis by blast
    qed
  next
    case (Some g)
    with Cons.prems(3) have ne: "d \<noteq> x" by auto
    with Cons.prems(2) have mem: "d \<in> set D" by simp
    define us1 where "us1 = (if g \<noteq> x then us @ [x] else us)"
    from Some Cons.prems(1) have
      l: "branches_loop client owner name D (us1, AList.delete (branch.Name x) m) st = (Inr (us', m'), st')"
      by (simp add: us1_def)
    have "map_of (AList.delete (branch.Name x) m) (branch.Name d) = None"
      using Cons.prems(3) by (simp add: delete_conv')
    from Cons.IH[OF l mem this] show ?thesis .
  qed
qed

lemma updateBranchSettings_success:
  assumes "updateBranchSettings client owner name A D st = (None, st')"
  shows "\<exists>us m st1. branches_loop client owner name D ([], branch_map A) st = (Inr (us, m), st1) \<and>
     snd st' = snd st1 @
       map (\<lambda>(branchToDelete, _). Repositories_RemoveBranchProtection owner name branchToDelete)
         (range_map client ''deleteBranchesMap'' m) @
       map (\<lambda>branchSettings.
              Repositories_UpdateBranchProtection owner name (branch.Name branchSettings)
                (protection_request branchSettings)) us"
proof -
  obtain r0 st0 where l:
    "branches_loop client owner name D ([], branch_map A) st = (r0, st0)" by (metis surj_pair)
  with assms obtain us m where r0: "r0 = Inr (us, m)"
    by (cases r0) (auto simp: updateBranchSettings_def)
  let ?dels = "map (\<lambda>(branchToDelete, _). Repositories_RemoveBranchProtection owner name branchToDelete)
         (range_map client ''deleteBranchesMap'' m)"
  let ?ups = "map (\<lambda>branchSettings.
              Repositories_UpdateBranchProtection owner name (branch.Name branchSettings)
                (protection_request branchSettings)) us"
  obtain r1 st1 where d:
    "call_each client ''Error removing branch protection\<newline>'' ?dels st0 = (r1, st1)"
    by (metis surj_pair)
  with assms l r0 have r1: "r1 = None" by (cases r1) (auto simp: updateBranchSettings_def)
  with assms l r0 d have u:
    "call_each client ''Error updating branch protection\<newline>'' ?ups st1 = (None, st')"
    by (simp add: updateBranchSettings_def)
  from call_each_None[OF d[unfolded r1]] call_each_None[OF u] l r0 show ?thesis by simp
qed

text \<open>
  C8. The desired branch \<open>d\<close> has no remote branch of its name, and the loop has reached
  it: the entries \<open>pre\<close> before it were processed without error. Then the loop calls
  createBranch for \<open>d\<close>; when that fails the reconciler returns the error, and when it
  succeeds \<open>d\<close> is appended to \<open>branchesToUpdate\<close>, whatever its protection is. A
  successful createBranch is the four steps clone, read HEAD, set the reference
  \<open>refs/heads/<name>\<close> to HEAD, push; and in a run of the reconciler that returns no
  error, a protection update for \<open>d\<close> follows them.
\<close>

theorem missing_branch_created_then_protected:
  assumes split: "branchesSettings = pre @ d # post"
      and missing: "branch.Name d \<notin> branch.Name ` set githubBranches"
      and reached: "branches_loop client owner name pre ([], branch_map githubBranches) st =
                      (Inr (branchesToUpdate, deleteBranchesMap), st1)"
  shows "branches_loop client owner name branchesSettings ([], branch_map githubBranches) st =
           (case createBranch client [branch.Name d] (fmtGithubURL owner name (token client)) st1 of
              (Some err, st2) \<Rightarrow> (Inl (Wrap err ''Error creating branch\<newline>''), st2)
            | (None, st2) \<Rightarrow>
                branches_loop client owner name post (branchesToUpdate @ [d], deleteBranchesMap) st2) \<and>
         (fst (createBranch client [branch.Name d] (fmtGithubURL owner name (token client)) st1) = None \<longrightarrow>
            (\<exists>headRef.
               calls_of st1 (snd (createBranch client [branch.Name d]
                                    (fmtGithubURL owner name (token client)) st1)) =
                 [git_Clone (fmtGithubURL owner name (token client)), git_Head,
                  git_SetReference (''refs/heads/'' @ branch.Name d) headRef, git_Push])) \<and>
         (fst (updateBranchSettings client owner name githubBranches branchesSettings st) = None \<longrightarrow>
            (\<exists>headRef t1 t2 t3.
               calls_of st (snd (updateBranchSettings client owner name githubBranches
                                   branchesSettings st)) =
                 t1 @
                 [git_Clone (fmtGithubURL owner name (token client)), git_Head,
                  git_SetReference (''refs/heads/'' @ branch.Name d) headRef, git_Push] @
                 t2 @
                 [Repositories_UpdateBranchProtection owner name (branch.Name d)
                    (protection_request d)] @
                 t3))"
proof (intro conjI impI)
  let ?url = "fmtGithubURL owner name (token client)"
  have none0: "map_of (branch_map githubBranches) (branch.Name d) = None"
    using missing by (simp add: branch_map_lookup_None)
  from branches_loop_final_map[OF reached] have
    "deleteBranchesMap = filter (\<lambda>kv. fst kv \<notin> branch.Name ` set pre) (branch_map githubBranches)" .
  with none0 have none1: "map_of deleteBranchesMap (branch.Name d) = None"
    by (simp add: map_of_filter_keys)
  show "branches_loop client owner name branchesSettings ([], branch_map githubBranches) st =
           (case createBranch client [branch.Name d] ?url st1 of
              (Some err, st2) \<Rightarrow> (Inl (Wrap err ''Error creating branch\<newline>''), st2)
            | (None, st2) \<Rightarrow>
                branches_loop client owner name post (branchesToUpdate @ [d], deleteBranchesMap) st2)"
    by (simp add: split branches_loop_append reached none1)
  {
    assume ok: "fst (createBranch client [branch.Name d] ?url st1) = None"
    then obtain st2 where c: "createBranch client [branch.Name d] ?url st1 = (None, st2)"
      by (metis prod.collapse)
    from createBranch_single[OF c] obtain h where
      "snd st2 = snd st1 @ [git_Clone ?url, git_Head,
          git_SetReference (''refs/heads/'' @ branch.Name d) h, git_Push]" ..
    then have "calls_of st1 (snd (createBranch client [branch.Name d] ?url st1)) =
        [git_Clone ?url, git_Head, git_SetReference (''refs/heads/'' @ branch.Name d) h, git_Push]"
      by (simp add: c calls_of_def)
    then show "\<exists>headRef.
               calls_of st1 (snd (createBranch client [branch.Name d] ?url st1)) =
                 [git_Clone ?url, git_Head,
                  git_SetReference (''refs/heads/'' @ branch.Name d) headRef, git_Push]" ..
  }
  {
    assume ok: "fst (updateBranchSettings client owner name githubBranches branchesSettings st) = None"
    then obtain st' where
      u: "updateBranchSettings client owner name githubBranches branchesSettings st = (None, st')"
      by (metis prod.collapse)
    from updateBranchSettings_success[OF u] obtain us m st0 where
      l: "branches_loop client owner name branchesSettings ([], branch_map githubBranches) st =
            (Inr (us, m), st0)" and
      t: "snd st' = snd st0 @
       map (\<lambda>(branchToDelete, _). Repositories_RemoveBranchProtection owner name branchToDelete)
         (range_map client ''deleteBranchesMap'' m) @
       map (\<lambda>branchSettings.
              Repositories_UpdateBranchProtection owner name (branch.Name branchSettings)
                (protection_request branchSettings)) us"
      by blast
    have mem: "d \<in> set branchesSettings" by (simp add: split)
    from branches_loop_created[OF l mem none0] obtain h t1 t2 where
      c: "snd st0 = snd st @ t1 @ [git_Clone ?url, git_Head,
            git_SetReference (''refs/heads/'' @ branch.Name d) h, git_Push] @ t2" by blast
    from branches_loop_scheduled[OF l] mem none0 have "d \<in> set us" by blast
    then obtain xs ys where us: "us = xs @ d # ys" by (meson split_list)
    let ?rem = "map (\<lambda>(branchToDelete, _). Repositories_RemoveBranchProtection owner name branchToDelete)
         (range_map client ''deleteBranchesMap'' m)"
    let ?up = "\<lambda>branchSettings.
              Repositories_UpdateBranchProtection owner name (branch.Name branchSettings)
                (protection_request branchSettings)"
    have "calls_of st st' =
        t1 @ [git_Clone ?url, git_Head,
            git_SetReference (''refs/heads/'' @ branch.Name d) h, git_Push] @
        (t2 @ ?rem @ map ?up xs) @ [?up d] @ map ?up ys"
      using t c us by (simp add: calls_of_def)
    then show "\<exists>headRef t1 t2 t3.
               calls_of st (snd (updateBranchSettings client owner name githubBranches
                                   branchesSettings st)) =
                 t1 @
                 [git_Clone ?url, git_Head,
                  git_SetReference (''refs/heads/'' @ branch.Name d) headRef, git_Push] @
                 t2 @
                 [Repositories_UpdateBranchProtection owner name (branch.Name d)
                    (protection_request d)] @
                 t3"
      unfolding u snd_conv by blast
  }
qed

text \<open>An instance: \<open>main\<close> exists remotely, \<open>dev\<close> is desired and missing.\<close>

theorem missing_branch_created_then_protected_witness:
  "two_branch_settings = [main_branch] @ dev_branch # [] \<and>
   branch.Name dev_branch \<notin> branch.Name ` set [main_branch] \<and>
   branches_loop hosted ''owner'' ''repo'' [main_branch] ([], branch_map [main_branch])
       (branch_remote, []) =
     (Inr ([], []), (branch_remote, [])) \<and>
   branches_loop hosted ''owner'' ''repo'' two_branch_settings ([], branch_map [main_branch])
       (branch_remote, []) =
     (Inr ([dev_branch], []),
      (dev_pushed_remote,
       [git_Clone ''https://token@github.com/owner/repo.git'', git_Head,
        git_SetReference ''refs/heads/dev'' ''c0ffee'', git_Push]))"
proof -
  let ?st = "(branch_remote, []) :: remote state"
  have split: "two_branch_settings = [main_branch] @ dev_branch # []"
    by (simp add: two_branch_settings_def)
  have missing: "branch.Name dev_branch \<notin> branch.Name ` set [main_branch]"
    by code_simp
  have reached: "branches_loop hosted ''owner'' ''repo'' [main_branch]
      ([], branch_map [main_branch]) ?st = (Inr ([], []), ?st)"
    by code_simp
  have create: "createBranch hosted [branch.Name dev_branch]
      (fmtGithubURL ''owner'' ''repo'' (token hosted)) ?st =
      (None, (dev_pushed_remote,
       [git_Clone ''https://token@github.com/owner/repo.git'', git_Head,
        git_SetReference ''refs/heads/dev'' ''c0ffee'', git_Push]))"
    by code_simp
  from missing_branch_created_then_protected[OF split missing reached] split missing reached
  show ?thesis by (simp add: create)
qed

lemma call_branch_phase: "call_branch c = Some b \<Longrightarrow> phase c \<in> {4, 5, 6}"
  by (cases c) (auto split: if_splits)

lemma createBranch_touch:
  assumes "createBranch client [b] url st = (r, st')" and "c \<in> set (calls_of st st')"
  shows "call_branch c = None \<or> call_branch c = Some b"
proof -
  obtain r1 st1 where i1: "invoke client (git_Clone url) st = (r1, st1)" by (metis surj_pair)
  note t1 = invoke_calls[OF i1]
  show ?thesis
  proof (cases r1)
    case (Some e)
    with assms i1 t1 show ?thesis by (auto simp: createBranch_def calls_of_def)
  next
    case None
    let ?st2 = "(fst st1, snd st1 @ [git_Head])"
    show ?thesis
    proof (cases "repo_Head client (fst st1)")
      case (Inl e)
      with assms i1 None t1 show ?thesis by (auto simp: createBranch_def calls_of_def)
    next
      case (Inr h)
      obtain r3 st3 where i3:
        "invoke client (git_SetReference (''refs/heads/'' @ b) h) ?st2 = (r3, st3)"
        by (metis surj_pair)
      note t3 = invoke_calls[OF i3]
      obtain r4 st4 where i4: "invoke client git_Push st3 = (r4, st4)" by (metis surj_pair)
      note t4 = invoke_calls[OF i4]
      from assms(1) i1 None Inr i3 i4 have "st' = st3 \<or> st' = st4"
        by (auto simp: createBranch_def split: option.splits)
      with assms(2) t1 t3 t4 show ?thesis
        by (auto simp: calls_of_def)
    qed
  qed
qed

lemma branches_loop_touch:
  "branches_loop client owner name D vars st = (r, st') \<Longrightarrow> c \<in> set (calls_of st st') \<Longrightarrow>
   call_branch c = None \<or> call_branch c \<in> Some ` branch.Name ` set D"
proof (induction D arbitrary: vars st)
  case Nil
  then show ?case by (simp add: calls_of_def)
next
  case (Cons x D)
  obtain us m where vars: "vars = (us, m)" by (cases vars)
  let ?url = "fmtGithubURL owner name (token client)"
  show ?case
  proof (cases "map_of m (branch.Name x)")
    case (Some g)
    with Cons.prems vars have
      "branches_loop client owner name D
         ((if g \<noteq> x then us @ [x] else us), AList.delete (branch.Name x) m) st = (r, st')"
      by simp
    from Cons.IH[OF this Cons.prems(2)] show ?thesis by auto
  next
    case None
    obtain r1 st1 where c1: "createBranch client [branch.Name x] ?url st = (r1, st1)"
      by (metis surj_pair)
    from createBranch_extends[OF c1] obtain ext1 where e1: "snd st1 = snd st @ ext1"
      unfolding extends_def by blast
    have touch1: "call_branch c' = None \<or> call_branch c' = Some (branch.Name x)"
      if "c' \<in> set ext1" for c'
      using createBranch_touch[OF c1, of c'] that e1 by (simp add: calls_of_def)
    show ?thesis
    proof (cases r1)
      case (Some e)
      with Cons.prems(1) vars None c1 have "st' = st1" by simp
      with Cons.prems(2) e1 have "c \<in> set ext1" by (simp add: calls_of_def)
      from touch1[OF this] show ?thesis by auto
    next
      case None2: None
      with Cons.prems(1) vars None c1 have
        l: "branches_loop client owner name D (us @ [x], m) st1 = (r, st')" by simp
      from branches_loop_extends[OF l] obtain ext2 where e2: "snd st' = snd st1 @ ext2"
        unfolding extends_def by blast
      from Cons.prems(2) e1 e2 have "c \<in> set ext1 \<or> c \<in> set (calls_of st1 st')"
        by (auto simp: calls_of_def)
      then show ?thesis
      proof
        assume "c \<in> set ext1"
        from touch1[OF this] show ?thesis by auto
      next
        assume "c \<in> set (calls_of st1 st')"
        from Cons.IH[OF l this] show ?thesis by auto
      qed
    qed
  qed
qed

lemma updateBranchSettings_calls:
  assumes "updateBranchSettings client owner name A D st = (r, st')"
  shows "\<exists>r0 st0. branches_loop client owner name D ([], branch_map A) st = (r0, st0) \<and>
     (case r0 of
        Inl err \<Rightarrow> st' = st0
      | Inr (us, m) \<Rightarrow>
          (\<exists>n k. snd st' = snd st0 @
             take n (map (\<lambda>(branchToDelete, _).
                            Repositories_RemoveBranchProtection owner name branchToDelete)
                       (range_map client ''deleteBranchesMap'' m)) @
             take k (map (\<lambda>branchSettings.
                            Repositories_UpdateBranchProtection owner name
                              (branch.Name branchSettings) (protection_request branchSettings)) us)))"
proof -
  obtain r0 st0 where l:
    "branches_loop client owner name D ([], branch_map A) st = (r0, st0)" by (metis surj_pair)
  show ?thesis
  proof (cases r0)
    case (Inl e)
    with assms l show ?thesis by (auto simp: updateBranchSettings_def)
  next
    case (Inr vars)
    obtain us m where vars: "vars = (us, m)" by (cases vars)
    let ?dels = "map (\<lambda>(branchToDelete, _). Repositories_RemoveBranchProtection owner name branchToDelete)
         (range_map client ''deleteBranchesMap'' m)"
    let ?ups = "map (\<lambda>branchSettings.
              Repositories_UpdateBranchProtection owner name (branch.Name branchSettings)
                (protection_request branchSettings)) us"
    obtain r1 st1 where d:
      "call_each client ''Error removing branch protection\<newline>'' ?dels st0 = (r1, st1)"
      by (metis surj_pair)
    from call_each_prefix[OF d] obtain n where n: "snd st1 = snd st0 @ take n ?dels" ..
    show ?thesis
    proof (cases r1)
      case (Some e)
      with assms l Inr vars d have "st' = st1" by (simp add: updateBranchSettings_def)
      with n have "snd st' = snd st0 @ take n ?dels @ take 0 ?ups" by simp
      then have "\<exists>n k. snd st' = snd st0 @ take n ?dels @ take k ?ups" by blast
      with l Inr vars show ?thesis by simp
    next
      case None
      with assms l Inr vars d have u:
        "call_each client ''Error updating branch protection\<newline>'' ?ups st1 = (r, st')"
        by (simp add: updateBranchSettings_def)
      from call_each_prefix[OF u] obtain k where "snd st' = snd st1 @ take k ?ups" ..
      with n have "snd st' = snd st0 @ take n ?dels @ take k ?ups" by simp
      then have "\<exists>n k. snd st' = snd st0 @ take n ?dels @ take k ?ups" by blast
      with l Inr vars show ?thesis by simp
    qed
  qed
qed

lemma updateBranchSettings_remote_only:
  assumes remote: "b \<in> branch.Name ` set A" and absent: "b \<notin> branch.Name ` set D"
      and run: "updateBranchSettings client owner name A D st = (r, st')"
  shows "(r = None \<longrightarrow> Repositories_RemoveBranchProtection owner name b \<in> set (calls_of st st'))"
    and "\<forall>c \<in> set (calls_of st st').
           call_branch c = Some b \<longrightarrow> c = Repositories_RemoveBranchProtection owner name b"
proof -
  show "r = None \<longrightarrow> Repositories_RemoveBranchProtection owner name b \<in> set (calls_of st st')"
  proof
    assume "r = None"
    with run have u: "updateBranchSettings client owner name A D st = (None, st')" by simp
    from updateBranchSettings_success[OF u] obtain us m st1 where
      l: "branches_loop client owner name D ([], branch_map A) st = (Inr (us, m), st1)" and
      t: "snd st' = snd st1 @
       map (\<lambda>(branchToDelete, _). Repositories_RemoveBranchProtection owner name branchToDelete)
         (range_map client ''deleteBranchesMap'' m) @
       map (\<lambda>branchSettings.
              Repositories_UpdateBranchProtection owner name (branch.Name branchSettings)
                (protection_request branchSettings)) us"
      by blast
    from branches_loop_final_map[OF l] have
      m: "m = filter (\<lambda>kv. fst kv \<notin> branch.Name ` set D) (branch_map A)" .
    from remote have "map_of (branch_map A) b \<noteq> None"
      by (simp add: branch_map_lookup_None)
    then obtain v where "map_of (branch_map A) b = Some v" by auto
    then have "(b, v) \<in> set (branch_map A)" by (rule map_of_SomeD)
    with absent m have "(b, v) \<in> set (range_map client ''deleteBranchesMap'' m)"
      by (simp add: range_map_set)
    then have "Repositories_RemoveBranchProtection owner name b \<in>
        set (map (\<lambda>(branchToDelete, _). Repositories_RemoveBranchProtection owner name branchToDelete)
         (range_map client ''deleteBranchesMap'' m))"
      by force
    moreover from branches_loop_extends[OF l] obtain ext where "snd st1 = snd st @ ext"
      unfolding extends_def by blast
    ultimately show "Repositories_RemoveBranchProtection owner name b \<in> set (calls_of st st')"
      using t by (simp add: calls_of_def)
  qed
  show "\<forall>c \<in> set (calls_of st st').
           call_branch c = Some b \<longrightarrow> c = Repositories_RemoveBranchProtection owner name b"
  proof (intro ballI impI)
    fix c assume c: "c \<in> set (calls_of st st')" and cb: "call_branch c = Some b"
    from updateBranchSettings_calls[OF run] obtain r0 st0 where
      l: "branches_loop client owner name D ([], branch_map A) st = (r0, st0)" and
      shape: "(case r0 of
        Inl err \<Rightarrow> st' = st0
      | Inr (us, m) \<Rightarrow>
          (\<exists>n k. snd st' = snd st0 @
             take n (map (\<lambda>(branchToDelete, _).
                            Repositories_RemoveBranchProtection owner name branchToDelete)
                       (range_map client ''deleteBranchesMap'' m)) @
             take k (map (\<lambda>branchSettings.
                            Repositories_UpdateBranchProtection owner name
                              (branch.Name branchSettings) (protection_request branchSettings)) us)))"
      by blast
    from branches_loop_extends[OF l] obtain ext0 where e0: "snd st0 = snd st @ ext0"
      unfolding extends_def by blast
    have in_loop: False if "c \<in> set ext0"
    proof -
      from that e0 have "c \<in> set (calls_of st st0)" by (simp add: calls_of_def)
      from branches_loop_touch[OF l this] cb absent show False by auto
    qed
    show "c = Repositories_RemoveBranchProtection owner name b"
    proof (cases r0)
      case (Inl e)
      with shape c e0 in_loop show ?thesis by (auto simp: calls_of_def)
    next
      case (Inr vars)
      obtain us m where vars: "vars = (us, m)" by (cases vars)
      let ?dels = "map (\<lambda>(branchToDelete, _). Repositories_RemoveBranchProtection owner name branchToDelete)
         (range_map client ''deleteBranchesMap'' m)"
      let ?ups = "map (\<lambda>branchSettings.
              Repositories_UpdateBranchProtection owner name (branch.Name branchSettings)
                (protection_request branchSettings)) us"
      from shape Inr vars obtain n k where
        t: "snd st' = snd st0 @ take n ?dels @ take k ?ups" by auto
      with c e0 consider "c \<in> set ext0" | "c \<in> set (take n ?dels)" | "c \<in> set (take k ?ups)"
        by (auto simp: calls_of_def)
      then show ?thesis
      proof cases
        case 1
        with in_loop show ?thesis by simp
      next
        case 2
        then have "c \<in> set ?dels" by (rule in_set_takeD)
        with cb show ?thesis by auto
      next
        case 3
        then have "c \<in> set ?ups" by (rule in_set_takeD)
        then obtain u where u: "u \<in> set us" and cu: "c = Repositories_UpdateBranchProtection owner
            name (branch.Name u) (protection_request u)" by auto
        from branches_loop_scheduled[OF l[unfolded Inr vars]] u have "u \<in> set D" by auto
        with cu cb absent show ?thesis by auto
      qed
    qed
  qed
qed

text \<open>
  C9. The branch \<open>b\<close> exists remotely and is not among the desired branches. Whenever the
  branch reconciler returns without error it has issued the call that removes the
  protection of \<open>b\<close>, and so has every run of Apply that returns without error. In every
  run of Apply, failed or not, the only call that names \<open>b\<close> is that removal: no call
  creates, updates or deletes the branch.
\<close>

theorem unlisted_branch_only_loses_protection:
  assumes read: "GetSettingsFromGithub client (fst st) (Owner (Repository settings))
                   (repository.Name (Repository settings)) = Ok githubSettings"
      and remote: "b \<in> branch.Name ` set (Branches githubSettings)"
      and absent: "b \<notin> branch.Name ` set (Branches settings)"
  shows "(fst (updateBranchSettings client (Owner (Repository settings))
                 (repository.Name (Repository settings))
                 (Branches githubSettings) (Branches settings) st2) = None \<longrightarrow>
            Repositories_RemoveBranchProtection (Owner (Repository settings))
                (repository.Name (Repository settings)) b
              \<in> set (calls_of st2
                   (snd (updateBranchSettings client (Owner (Repository settings))
                           (repository.Name (Repository settings))
                           (Branches githubSettings) (Branches settings) st2)))) \<and>
         (fst (Apply client settings st) = Ok () \<longrightarrow>
            Repositories_RemoveBranchProtection (Owner (Repository settings))
                (repository.Name (Repository settings)) b
              \<in> set (calls_of st (snd (Apply client settings st)))) \<and>
         list_all (\<lambda>c. call_branch c = Some b \<longrightarrow>
                      c = Repositories_RemoveBranchProtection (Owner (Repository settings))
                            (repository.Name (Repository settings)) b)
           (calls_of st (snd (Apply client settings st)))"
proof (intro conjI)
  let ?owner = "Owner (Repository settings)"
  let ?name = "repository.Name (Repository settings)"
  let ?g = githubSettings
  let ?remove = "Repositories_RemoveBranchProtection ?owner ?name b"
  show "fst (updateBranchSettings client ?owner ?name (Branches ?g) (Branches settings) st2) = None \<longrightarrow>
        ?remove \<in> set (calls_of st2
           (snd (updateBranchSettings client ?owner ?name (Branches ?g) (Branches settings) st2)))"
    using updateBranchSettings_remote_only(1)[OF remote absent,
            of client ?owner ?name st2
               "fst (updateBranchSettings client ?owner ?name (Branches ?g) (Branches settings) st2)"
               "snd (updateBranchSettings client ?owner ?name (Branches ?g) (Branches settings) st2)"]
    by simp
  obtain r1 st1 where a1:
    "updateRepoSettings client ?owner ?name (Repository ?g) (Repository settings) st = (r1, st1)"
    by (metis surj_pair)
  obtain r2 st2' where a2:
    "updateLabels client ?owner ?name (Labels ?g) (Labels settings) st1 = (r2, st2')"
    by (metis surj_pair)
  obtain r3 st3 where a3:
    "updateBranchSettings client ?owner ?name (Branches ?g) (Branches settings) st2' = (r3, st3)"
    by (metis surj_pair)
  obtain r4 st4 where a4:
    "updateWebhooks client ?owner ?name (Webhooks ?g) (Webhooks settings) st3 = (r4, st4)"
    by (metis surj_pair)
  obtain r5 st5 where a5:
    "updateTopicsSettings client ?owner ?name (Topics ?g) (Topics settings) st4 = (r5, st5)"
    by (metis surj_pair)
  note e1 = updateRepoSettings_extends[OF a1]
  note e2 = updateLabels_extends[OF a2]
  note e3 = updateBranchSettings_extends[OF a3]
  note e4 = updateWebhooks_extends[OF a4]
  note e5 = updateTopicsSettings_extends[OF a5]
  from e1 obtain x1 where t1: "snd st1 = snd st @ x1" unfolding extends_def by blast
  from e2 obtain x2 where t2: "snd st2' = snd st1 @ x2" unfolding extends_def by blast
  from e3 obtain x3 where t3: "snd st3 = snd st2' @ x3" unfolding extends_def by blast
  from e4 obtain x4 where t4: "snd st4 = snd st3 @ x4" unfolding extends_def by blast
  from e5 obtain x5 where t5: "snd st5 = snd st4 @ x5" unfolding extends_def by blast
  have only: "c = ?remove"
    if "c \<in> set (calls_of st st1) \<or> c \<in> set (calls_of st1 st2') \<or> c \<in> set (calls_of st2' st3) \<or>
        c \<in> set (calls_of st3 st4) \<or> c \<in> set (calls_of st4 st5)"
      and cb: "call_branch c = Some b" for c
  proof -
    from call_branch_phase[OF cb] have ph: "phase c \<in> {4, 5, 6}" .
    from that(1) ph extends_phase[OF e1, of c] extends_phase[OF e2, of c]
      extends_phase[OF e4, of c] extends_phase[OF e5, of c]
    have "c \<in> set (calls_of st2' st3)" by auto
    with updateBranchSettings_remote_only(2)[OF remote absent a3] cb show ?thesis by blast
  qed
  have flat: "Apply client settings st =
      (case r1 of Some err \<Rightarrow> (Err (Wrap err ''Error updating repository settings''), st1)
       | None \<Rightarrow>
      (case r2 of Some err \<Rightarrow> (Err (Wrap err ''Error updating repository labels''), st2')
       | None \<Rightarrow>
      (case r3 of Some err \<Rightarrow> (Err (Wrap err ''Error updating repository branches protection''), st3)
       | None \<Rightarrow>
      (case r4 of Some err \<Rightarrow> (Err (Wrap err ''Error updating repository webhooks''), st4)
       | None \<Rightarrow>
      (case r5 of Some err \<Rightarrow> (Err (Wrap err ''Error updating repository topics''), st5)
       | None \<Rightarrow> (Ok (), st5))))))"
    by (simp add: Apply_def Let_def read a1 a2 a3 a4 a5 split: option.splits)
  show "fst (Apply client settings st) = Ok () \<longrightarrow>
        ?remove \<in> set (calls_of st (snd (Apply client settings st)))"
  proof
    assume ok: "fst (Apply client settings st) = Ok ()"
    with flat have none: "r1 = None" "r2 = None" "r3 = None" "r4 = None" "r5 = None"
      and final: "snd (Apply client settings st) = st5"
      by (auto split: option.splits)
    from updateBranchSettings_remote_only(1)[OF remote absent a3] none
    have "?remove \<in> set (calls_of st2' st3)" by simp
    moreover have "calls_of st st5 =
        calls_of st st1 @ calls_of st1 st2' @ calls_of st2' st3 @ calls_of st3 st4 @ calls_of st4 st5"
      using t1 t2 t3 t4 t5 by (simp add: calls_of_def)
    ultimately show "?remove \<in> set (calls_of st (snd (Apply client settings st)))"
      by (simp add: final)
  qed
  have "snd (Apply client settings st) \<in> {st1, st2', st3, st4, st5}"
    using flat by (auto split: option.splits)
  then have "set (calls_of st (snd (Apply client settings st))) \<subseteq>
      set (calls_of st st1) \<union> set (calls_of st1 st2') \<union> set (calls_of st2' st3) \<union>
      set (calls_of st3 st4) \<union> set (calls_of st4 st5)"
    using t1 t2 t3 t4 t5 by (auto simp: calls_of_def)
  with only show "list_all (\<lambda>c. call_branch c = Some b \<longrightarrow> c = ?remove)
           (calls_of st (snd (Apply client settings st)))"
    unfolding list_all_iff by blast
qed

text \<open>
  An instance: \<open>main\<close> and \<open>old\<close> exist remotely, only \<open>main\<close> is desired. The run
  removes the protection of \<open>old\<close> and issues no other call.
\<close>

theorem unlisted_branch_only_loses_protection_witness:
  "GetSettingsFromGithub hosted branch_remote ''owner'' ''repo'' = Ok branch_snapshot \<and>
   ''old'' \<in> branch.Name ` set (Branches branch_snapshot) \<and>
   ''old'' \<notin> branch.Name ` set (Branches main_only_settings) \<and>
   Apply hosted main_only_settings (branch_remote, []) =
     (Ok (), branch_remote,
      [Repositories_RemoveBranchProtection ''owner'' ''repo'' ''old'']) \<and>
   Repositories_RemoveBranchProtection ''owner'' ''repo'' ''old''
     \<in> set (calls_of (branch_remote, []) (snd (Apply hosted main_only_settings (branch_remote, []))))"
proof -
  let ?st = "(branch_remote, []) :: remote state"
  have names: "Owner (Repository main_only_settings) = ''owner''"
    "repository.Name (Repository main_only_settings) = ''repo''"
    by code_simp+
  have read: "GetSettingsFromGithub hosted (fst ?st) (Owner (Repository main_only_settings))
                (repository.Name (Repository main_only_settings)) = Ok branch_snapshot"
    by code_simp
  have remote: "''old'' \<in> branch.Name ` set (Branches branch_snapshot)"
    by code_simp
  have absent: "''old'' \<notin> branch.Name ` set (Branches main_only_settings)"
    by code_simp
  have run: "Apply hosted main_only_settings ?st =
     (Ok (), branch_remote, [Repositories_RemoveBranchProtection ''owner'' ''repo'' ''old''])"
    by code_simp
  from unlisted_branch_only_loses_protection[OF read remote absent, of ?st] read remote absent run
  show ?thesis by (simp add: names)
qed

end
